theory Spec2Isabelle
  imports Complex_Main
begin

section \<open>Numbers and values of the host language\<close>

text \<open>
  The program is TypeScript running in a browser; its numbers are IEEE 754 doubles.
  Rounding to the nearest double, ties to the even significand, is defined on the
  reals: \<open>binade x\<close> is the exponent of \<open>x\<close> (not below that of the subnormal
  numbers), \<open>ulp x\<close> the spacing of the doubles there, and \<open>round_double x\<close> the
  nearest multiple of it. The result can reach \<open>2 ^ 1024\<close>, which \<open>to_num\<close> below
  turns into an infinity.
\<close>

definition binade :: "real \<Rightarrow> int" where
  "binade x = max (- 1022) \<lfloor>log 2 \<bar>x\<bar>\<rfloor>"

definition ulp :: "real \<Rightarrow> real" where
  "ulp x = 2 powr (of_int (binade x) - 52)"

definition round_even :: "real \<Rightarrow> int" where
  "round_even q =
     (let f = \<lfloor>q\<rfloor>; r = q - of_int f
      in if r < 1 / 2 then f else if 1 / 2 < r then f + 1 else if even f then f else f + 1)"

definition round_double :: "real \<Rightarrow> real" where
  "round_double x = (if x = 0 then 0 else of_int (round_even (x / ulp x)) * ulp x)"

text \<open>The reals that are finite doubles: the fixed points of the rounding, in range.\<close>

definition is_double :: "real \<Rightarrow> bool" where
  "is_double x = (round_double x = x \<and> \<bar>x\<bar> < 2 ^ 1024)"

text \<open>
  A number of the language: a finite double (\<open>Fin 0\<close> is the positive zero), the
  negative zero, the two infinities, or \<^verbatim>\<open>NaN\<close>.
\<close>

datatype jsnum = Fin real | NegZero | PInf | NInf | NaN

fun num_val :: "jsnum \<Rightarrow> real" where
  "num_val (Fin x) = x"
| "num_val _ = 0"

fun sign_neg :: "jsnum \<Rightarrow> bool" where
  "sign_neg (Fin x) = (x < 0)"
| "sign_neg NegZero = True"
| "sign_neg NInf = True"
| "sign_neg _ = False"

fun is_inf :: "jsnum \<Rightarrow> bool" where
  "is_inf PInf = True"
| "is_inf NInf = True"
| "is_inf _ = False"

definition signed_zero :: "bool \<Rightarrow> jsnum" where
  "signed_zero neg = (if neg then NegZero else Fin 0)"

definition signed_inf :: "bool \<Rightarrow> jsnum" where
  "signed_inf neg = (if neg then NInf else PInf)"

text \<open>
  The double delivered for an exact result \<open>x\<close>: rounded, an infinity on overflow, and
  a zero of the sign \<open>neg\<close> of the exact result when it rounds to zero.
\<close>

definition to_num :: "bool \<Rightarrow> real \<Rightarrow> jsnum" where
  "to_num neg x =
     (let r = round_double x
      in if 2 ^ 1024 \<le> r then PInf
         else if r \<le> - (2 ^ 1024) then NInf
         else if r = 0 then signed_zero neg
         else Fin r)"

text \<open>A decimal literal of the source, such as \<^verbatim>\<open>16.666\<close>.\<close>

definition js_literal :: "real \<Rightarrow> jsnum" where
  "js_literal x = to_num (x < 0) x"

text \<open>
  The operator \<^verbatim>\<open>-\<close>. An exact zero difference is the positive zero, except for
  \<open>(-0) - (+0)\<close>.
\<close>

fun js_sub :: "jsnum \<Rightarrow> jsnum \<Rightarrow> jsnum" where
  "js_sub NaN _ = NaN"
| "js_sub _ NaN = NaN"
| "js_sub PInf PInf = NaN"
| "js_sub PInf _ = PInf"
| "js_sub NInf NInf = NaN"
| "js_sub NInf _ = NInf"
| "js_sub _ PInf = NInf"
| "js_sub _ NInf = PInf"
| "js_sub a b =
     (let x = num_val a - num_val b
      in if x = 0 then signed_zero (a = NegZero \<and> b = Fin 0) else to_num (x < 0) x)"

text \<open>
  The operator \<^verbatim>\<open>%\<close>: the quotient is truncated towards zero, so the result has
  the sign of the dividend; it is exact. A zero divisor or an infinite dividend gives
  \<^verbatim>\<open>NaN\<close>, an infinite divisor gives the dividend.
\<close>

definition js_trunc :: "real \<Rightarrow> int" where
  "js_trunc x = (if 0 \<le> x then \<lfloor>x\<rfloor> else \<lceil>x\<rceil>)"

fun js_rem :: "jsnum \<Rightarrow> jsnum \<Rightarrow> jsnum" where
  "js_rem NaN _ = NaN"
| "js_rem _ NaN = NaN"
| "js_rem PInf _ = NaN"
| "js_rem NInf _ = NaN"
| "js_rem n PInf = n"
| "js_rem n NInf = n"
| "js_rem n d =
     (if num_val d = 0 then NaN
      else if num_val n = 0 then n
      else (let r = num_val n - num_val d * of_int (js_trunc (num_val n / num_val d))
            in if r = 0 then signed_zero (sign_neg n) else Fin r))"

text \<open>The operator \<^verbatim>\<open>/\<close>.\<close>

definition js_div :: "jsnum \<Rightarrow> jsnum \<Rightarrow> jsnum" where
  "js_div a b =
     (let neg = (sign_neg a \<noteq> sign_neg b)
      in if a = NaN \<or> b = NaN then NaN
         else if is_inf a then (if is_inf b then NaN else signed_inf neg)
         else if is_inf b then signed_zero neg
         else if num_val b = 0 then (if num_val a = 0 then NaN else signed_inf neg)
         else if num_val a = 0 then signed_zero neg
         else to_num neg (num_val a / num_val b))"

text \<open>The comparisons \<^verbatim>\<open><\<close> and \<^verbatim>\<open>>\<close>: false whenever an operand is \<^verbatim>\<open>NaN\<close>.\<close>

fun js_lt :: "jsnum \<Rightarrow> jsnum \<Rightarrow> bool" where
  "js_lt NaN _ = False"
| "js_lt _ NaN = False"
| "js_lt PInf _ = False"
| "js_lt _ NInf = False"
| "js_lt NInf _ = True"
| "js_lt _ PInf = True"
| "js_lt a b = (num_val a < num_val b)"

definition js_gt :: "jsnum \<Rightarrow> jsnum \<Rightarrow> bool" where
  "js_gt a b = js_lt b a"

text \<open>The mathematical remainder the specification calls \<open>mod\<close>.\<close>

definition real_mod :: "real \<Rightarrow> real \<Rightarrow> real" where
  "real_mod n d = n - d * of_int \<lfloor>n / d\<rfloor>"

text \<open>
  Values that can be thrown or returned by user code, as far as the framework looks at
  them: it only ever tests their truthiness.
\<close>

datatype jsval =
    JUndefined
  | JNull
  | JBool bool
  | JNum jsnum
  | JStr string
  | JObj string

fun truthy :: "jsval \<Rightarrow> bool" where
  "truthy JUndefined = False"
| "truthy JNull = False"
| "truthy (JBool b) = b"
| "truthy (JNum n) = (n \<noteq> NaN \<and> (is_inf n \<or> num_val n \<noteq> 0))"
| "truthy (JStr s) = (s \<noteq> [])"
| "truthy (JObj _) = True"


section \<open>Input state tracker\<close>

text \<open>The enumeration \<^verbatim>\<open>Button\<close> with its numeric values.\<close>

datatype Button = A | B | Up | Down | Left | Right | Start | Select

fun button_code :: "Button \<Rightarrow> nat" where
  "button_code A = 90"
| "button_code B = 88"
| "button_code Up = 265"
| "button_code Down = 264"
| "button_code Left = 263"
| "button_code Right = 262"
| "button_code Start = 257"
| "button_code Select = 32"

text \<open>
  \<^verbatim>\<open>keyToButton\<close>: a \<^verbatim>\<open>switch\<close> on the key string with strict equality; falling
  out of the switch returns \<^verbatim>\<open>undefined\<close>, here \<open>None\<close>.
\<close>

definition keyToButton :: "string \<Rightarrow> Button option" where
  "keyToButton key =
     (if key = ''z'' then Some A
      else if key = ''x'' then Some B
      else if key = ''ArrowUp'' then Some Up
      else if key = ''ArrowDown'' then Some Down
      else if key = ''ArrowLeft'' then Some Left
      else if key = ''ArrowRight'' then Some Right
      else if key = ''Enter'' then Some Start
      else if key = '' '' then Some Select
      else None)"

text \<open>
  The module-level table \<^verbatim>\<open>BUTTONS\<close>: one number per button, all zero when the
  module is loaded. The handlers mutate it; the model passes it explicitly. Its entries
  are 0 or readings of \<^verbatim>\<open>performance.now()\<close>, which are finite; a clock reading is
  a real (a double, see \<^const>\<open>is_double\<close>) and an explicit argument of the function
  that takes it.
\<close>

type_synonym buttons = "Button \<Rightarrow> real"

definition BUTTONS :: buttons where
  "BUTTONS = (\<lambda>_. 0)"

text \<open>
  \<^verbatim>\<open>window.onkeyup\<close>. The test \<^verbatim>\<open>if (btn)\<close> on a value of type
  \<^verbatim>\<open>void | Button\<close> fails for \<^verbatim>\<open>undefined\<close> and for a button whose
  numeric value is zero.
\<close>

definition onkeyup :: "string \<Rightarrow> buttons \<Rightarrow> buttons" where
  "onkeyup key bs =
     (case keyToButton key of
        None \<Rightarrow> bs
      | Some btn \<Rightarrow> if button_code btn \<noteq> 0 then bs(btn := 0) else bs)"

text \<open>
  \<^verbatim>\<open>window.onkeydown\<close>; \<open>t\<close> is the reading of \<^verbatim>\<open>performance.now()\<close> taken
  when the guard holds. \<^verbatim>\<open>!BUTTONS[btn]\<close> is true exactly for a stored zero.
\<close>

definition onkeydown :: "string \<Rightarrow> real \<Rightarrow> buttons \<Rightarrow> buttons" where
  "onkeydown key t bs =
     (case keyToButton key of
        None \<Rightarrow> bs
      | Some btn \<Rightarrow> if button_code btn \<noteq> 0 \<and> \<not> (bs btn \<noteq> 0) then bs(btn := t) else bs)"

text \<open>\<^verbatim>\<open>isButtonDown\<close>.\<close>

definition isButtonDown :: "Button \<Rightarrow> buttons \<Rightarrow> bool" where
  "isButtonDown btn bs = (bs btn > 0)"

text \<open>\<^verbatim>\<open>isButtonPressed\<close>; \<open>t\<close> is the reading of \<^verbatim>\<open>performance.now()\<close>.\<close>

definition isButtonPressed :: "Button \<Rightarrow> real \<Rightarrow> buttons \<Rightarrow> bool" where
  "isButtonPressed btn t bs =
     (let delta = js_sub (Fin t) (Fin (bs btn)) in js_lt delta (js_literal 16.666))"

text \<open>
  Keyboard events as the host delivers them, each key-down with the clock reading its
  handler would obtain, and the table after a sequence of events.
\<close>

datatype key_event = KeyDown string real | KeyUp string

fun handle_event :: "key_event \<Rightarrow> buttons \<Rightarrow> buttons" where
  "handle_event (KeyDown key t) bs = onkeydown key t bs"
| "handle_event (KeyUp key) bs = onkeyup key bs"

fun handle_events :: "key_event list \<Rightarrow> buttons \<Rightarrow> buttons" where
  "handle_events [] bs = bs"
| "handle_events (e # es) bs = handle_events es (handle_event e bs)"

fun event_key :: "key_event \<Rightarrow> string" where
  "event_key (KeyDown key _) = key"
| "event_key (KeyUp key) = key"

fun event_time_ok :: "key_event \<Rightarrow> bool" where
  "event_time_ok (KeyDown _ t) = (0 \<le> t)"
| "event_time_ok (KeyUp _) = True"

fun is_release :: "key_event \<Rightarrow> bool" where
  "is_release (KeyUp _) = True"
| "is_release (KeyDown _ _) = False"


section \<open>Frame scheduler\<close>

text \<open>
  What a call of the callback \<^verbatim>\<open>cb\<close> does, as far as the scheduler can observe:
  it changes the state owned by user code, it may have invoked the \<^verbatim>\<open>stop\<close>
  handle, and it either returns or throws a value. User code has no access to the
  variables closed over by \<^verbatim>\<open>setAnimationFrame\<close>.
\<close>

datatype 'u cb_result =
  CbResult (user_after: 'u) (called_stop: bool) (thrown: "jsval option")

type_synonym 'u callback = "'u \<Rightarrow> 'u cb_result"

text \<open>
  The part of the host that the scheduler uses: the list of outstanding
  \<^verbatim>\<open>requestAnimationFrame\<close> requests (by handle, oldest first), the next handle the
  host will hand out, the global slot \<^verbatim>\<open>STARSHIP_TIMER\<close> (\<open>None\<close> for
  \<^verbatim>\<open>undefined\<close>) and what \<^verbatim>\<open>console.log\<close> has printed.
\<close>

record host =
  pending :: "nat list"
  next_handle :: nat
  STARSHIP_TIMER :: "nat option"
  console :: "jsval list"

text \<open>
  The host together with one scheduler closure: the variables \<^verbatim>\<open>then\<close>,
  \<^verbatim>\<open>now\<close>, \<^verbatim>\<open>delta\<close> and \<^verbatim>\<open>error\<close> of \<^verbatim>\<open>setAnimationFrame\<close>
  (\<open>None\<close> and \<open>JUndefined\<close> for a variable not yet assigned), and the state of
  user code. Two fields are traces kept for stating properties and are never read by the
  model: \<open>fired\<close> lists the clock readings at which \<^verbatim>\<open>cb\<close> was called, and
  \<open>failures\<close> the values the \<^verbatim>\<open>catch\<close> clause received.
\<close>

record 'u world = host +
  then_v :: jsnum
  now_v :: "jsnum option"
  delta_v :: "jsnum option"
  error_v :: jsval
  user :: 'u
  fired :: "real list"
  failures :: "jsval list"

text \<open>How a call completes: normally, or by an exception that leaves it.\<close>

datatype completion = Normal | Abrupt jsval

text \<open>
  \<^verbatim>\<open>requestAnimationFrame(start)\<close>: registers a request and returns its handle.
  Every request in the model is for \<^verbatim>\<open>start\<close>.
\<close>

definition requestAnimationFrame :: "'u world \<Rightarrow> nat \<times> 'u world" where
  "requestAnimationFrame w =
     (next_handle w,
      w\<lparr>pending := pending w @ [next_handle w], next_handle := Suc (next_handle w)\<rparr>)"

text \<open>
  \<^verbatim>\<open>cancelAnimationFrame(handle)\<close>: removes the request; an \<^verbatim>\<open>undefined\<close> or
  unknown handle is ignored.
\<close>

definition cancelAnimationFrame :: "nat option \<Rightarrow> 'u world \<Rightarrow> 'u world" where
  "cancelAnimationFrame handle w =
     (case handle of
        None \<Rightarrow> w
      | Some h \<Rightarrow> w\<lparr>pending := removeAll h (pending w)\<rparr>)"

text \<open>The inner function \<^verbatim>\<open>stop\<close>.\<close>

definition stop :: "'u world \<Rightarrow> 'u world" where
  "stop w = cancelAnimationFrame (STARSHIP_TIMER w) w"

text \<open>
  The inner function \<^verbatim>\<open>start\<close>, called with the clock reading \<open>t\<close>. The
  parameter the source calls \<^verbatim>\<open>fps\<close> holds the interval in milliseconds. The
  \<^verbatim>\<open>try\<close> block contains only the call of \<^verbatim>\<open>cb\<close>; its \<^verbatim>\<open>catch\<close> clause
  tests \<^verbatim>\<open>!error\<close>.
\<close>

definition start :: "'u callback \<Rightarrow> jsnum \<Rightarrow> real \<Rightarrow> 'u world \<Rightarrow> completion \<times> 'u world" where
  "start cb fps t w =
     (let (h, w1) = requestAnimationFrame w;
          w2 = w1\<lparr>STARSHIP_TIMER := Some h\<rparr>;
          w3 = w2\<lparr>now_v := Some (Fin t)\<rparr>;
          delta = js_sub (Fin t) (then_v w3);
          w4 = w3\<lparr>delta_v := Some delta\<rparr>
      in if js_gt delta fps then
           (let w5 = w4\<lparr>then_v := js_sub (Fin t) (js_rem delta fps)\<rparr>;
                r = cb (user w5);
                w6 = w5\<lparr>user := user_after r, fired := fired w5 @ [t]\<rparr>;
                w7 = (if called_stop r then stop w6 else w6)
            in case thrown r of
                 None \<Rightarrow> (Normal, w7)
               | Some err \<Rightarrow>
                   (let w8 = w7\<lparr>failures := failures w7 @ [err]\<rparr>
                    in if \<not> truthy (error_v w8)
                       then (Normal, w8\<lparr>error_v := err, console := console w8 @ [err]\<rparr>)
                       else (Normal, w8)))
         else (Normal, w4))"

text \<open>
  \<^verbatim>\<open>setAnimationFrame(cb, fps)\<close> on a host \<open>h\<close> with user state \<open>u\<close>: a new
  closure whose \<^verbatim>\<open>then\<close> is the clock reading \<open>t0\<close>, then \<^verbatim>\<open>stop()\<close>, then
  \<^verbatim>\<open>start()\<close>, which reads the clock as \<open>t1\<close>. The returned handle is
  \<^const>\<open>stop\<close>.
\<close>

definition setAnimationFrame ::
  "'u callback \<Rightarrow> jsnum \<Rightarrow> real \<Rightarrow> real \<Rightarrow> host \<Rightarrow> 'u \<Rightarrow> completion \<times> 'u world" where
  "setAnimationFrame cb fps t0 t1 h u =
     (let w0 = \<lparr>pending = pending h, next_handle = next_handle h,
                STARSHIP_TIMER = STARSHIP_TIMER h, console = console h,
                then_v = Fin t0, now_v = None, delta_v = None, error_v = JUndefined,
                user = u, fired = [], failures = []\<rparr>;
          w1 = stop w0
      in start cb fps t1 w1)"

text \<open>
  One animation-frame notification at clock reading \<open>t\<close>: the host takes the oldest
  outstanding request off its list and calls \<^verbatim>\<open>start\<close>; with no request
  outstanding nothing is called. \<open>notifies\<close> delivers a sequence of them.
\<close>

definition notify :: "'u callback \<Rightarrow> jsnum \<Rightarrow> real \<Rightarrow> 'u world \<Rightarrow> 'u world" where
  "notify cb fps t w =
     (case pending w of
        [] \<Rightarrow> w
      | h # hs \<Rightarrow> snd (start cb fps t (w\<lparr>pending := hs\<rparr>)))"

fun notifies :: "'u callback \<Rightarrow> jsnum \<Rightarrow> real list \<Rightarrow> 'u world \<Rightarrow> 'u world" where
  "notifies cb fps [] w = w"
| "notifies cb fps (t # ts) w = notifies cb fps ts (notify cb fps t w)"

text \<open>A freshly loaded page: nothing requested, the global slot unset.\<close>

definition fresh_host :: host where
  "fresh_host = \<lparr>pending = [], next_handle = 1, STARSHIP_TIMER = None, console = []\<rparr>"

text \<open>
  The hosts on which a loop may be started: any outstanding request is the one recorded
  in \<^verbatim>\<open>STARSHIP_TIMER\<close> (an earlier loop, as after a hot reload), and its handle
  has been handed out already.
\<close>

definition single_loop :: "'a host_scheme \<Rightarrow> bool" where
  "single_loop h =
     (case pending h of
        [] \<Rightarrow> True
      | [i] \<Rightarrow> STARSHIP_TIMER h = Some i \<and> i < next_handle h
      | _ \<Rightarrow> False)"


section \<open>Loop driver\<close>

text \<open>
  User callbacks act on the state \<open>'s\<close> they own (the value made by \<^verbatim>\<open>init\<close>
  and the queue array, which the framework never fills). \<^verbatim>\<open>update\<close> returns a value
  or throws, \<^verbatim>\<open>destroy\<close> returns or throws, \<^verbatim>\<open>init\<close> yields the first state
  or throws.
\<close>

type_synonym 's update_fn = "'s \<Rightarrow> 's \<times> (jsval + jsval)"
type_synonym 's destroy_fn = "'s \<Rightarrow> 's \<times> jsval option"

record Vector2 =
  x :: real
  y :: real

text \<open>
  \<^verbatim>\<open>StarshipConfig\<close>; the optional fields are \<open>None\<close> when absent. Only
  \<^verbatim>\<open>fps\<close> reaches the scheduler.
\<close>

record StarshipConfig =
  title :: string
  canvas :: Vector2
  window :: "Vector2 option"
  fps :: "jsnum option"

datatype call = CallUpdate | CallDestroy

text \<open>
  The variables of \<^verbatim>\<open>run\<close> that its callback closes over: \<^verbatim>\<open>state\<close>, and the
  constant \<^verbatim>\<open>stop\<close>, which is uninitialised until \<^verbatim>\<open>setAnimationFrame\<close> has
  returned. \<open>calls\<close> is a trace of the user callbacks invoked, kept for stating
  properties.
\<close>

record 's run_env =
  state :: 's
  stop_initialised :: bool
  calls :: "call list"

text \<open>
  The arrow function passed to \<^verbatim>\<open>setAnimationFrame\<close>:
  \<^verbatim>\<open>if (update(state, queue)) { destroy(state); stop() }\<close>. Reading \<^verbatim>\<open>stop\<close>
  before its initialisation throws.
\<close>

definition run_cb :: "'s update_fn \<Rightarrow> 's destroy_fn \<Rightarrow> 's run_env callback" where
  "run_cb update destroy env =
     (let (s1, r) = update (state env);
          env1 = env\<lparr>state := s1, calls := calls env @ [CallUpdate]\<rparr>
      in case r of
           Inl err \<Rightarrow> CbResult env1 False (Some err)
         | Inr v \<Rightarrow>
             if truthy v then
               (let (s2, d) = destroy s1;
                    env2 = env1\<lparr>state := s2, calls := calls env1 @ [CallDestroy]\<rparr>
                in case d of
                     Some err \<Rightarrow> CbResult env2 False (Some err)
                   | None \<Rightarrow>
                       if stop_initialised env2 then CbResult env2 True None
                       else CbResult env2 False (Some (JObj ''ReferenceError'')))
             else CbResult env1 False None)"

text \<open>
  \<^verbatim>\<open>run\<close>, without the set-up of the canvas: the interval is
  \<^verbatim>\<open>1000 / (config.fps ?? 60)\<close>, \<^verbatim>\<open>init()\<close> makes the state (an exception
  from it leaves \<^verbatim>\<open>run\<close>), and the loop is started; once
  \<^verbatim>\<open>setAnimationFrame\<close> has returned, \<^verbatim>\<open>stop\<close> is initialised.
\<close>

definition frame_interval :: "StarshipConfig \<Rightarrow> jsnum" where
  "frame_interval config =
     js_div (Fin 1000) (case fps config of None \<Rightarrow> Fin 60 | Some f \<Rightarrow> f)"

definition run ::
  "StarshipConfig \<Rightarrow> (jsval + 's) \<Rightarrow> 's destroy_fn \<Rightarrow> 's update_fn \<Rightarrow> real \<Rightarrow> real \<Rightarrow> host
     \<Rightarrow> jsval + 's run_env world" where
  "run config init destroy update t0 t1 h =
     (case init of
        Inl err \<Rightarrow> Inl err
      | Inr s \<Rightarrow>
          (case setAnimationFrame (run_cb update destroy) (frame_interval config) t0 t1 h
                  \<lparr>state = s, stop_initialised = False, calls = []\<rparr> of
             (Abrupt err, w) \<Rightarrow> Inl err
           | (Normal, w) \<Rightarrow> Inr (w\<lparr>user := (user w)\<lparr>stop_initialised := True\<rparr>\<rparr>)))"


section \<open>Callbacks used in concrete traces\<close>

text \<open>
  A configuration asking for 100 frames per second; a callback that counts its calls;
  one that throws \<^verbatim>\<open>null\<close> and one that throws an error object on every call;
  an update that asks for termination on every call; a destroy that returns and one
  that throws an error object.
\<close>

definition example_config :: StarshipConfig where
  "example_config =
     \<lparr>title = ''My Game'', canvas = \<lparr>x = 256, y = 144\<rparr>, window = None,
       fps = Some (Fin 100)\<rparr>"

definition counting_cb :: "nat callback" where
  "counting_cb n = CbResult (Suc n) False None"

definition null_throwing_cb :: "nat callback" where
  "null_throwing_cb n = CbResult (Suc n) False (Some JNull)"

definition error_throwing_cb :: "nat callback" where
  "error_throwing_cb n = CbResult (Suc n) False (Some (JObj ''Error''))"

definition quitting_update :: "nat update_fn" where
  "quitting_update s = (Suc s, Inr (JBool True))"

definition returning_destroy :: "nat destroy_fn" where
  "returning_destroy s = (s, None)"

definition throwing_destroy :: "nat destroy_fn" where
  "throwing_destroy s = (s, Some (JObj ''Error''))"


section \<open>Properties of the arithmetic\<close>

subsection \<open>Rounding to the nearest double\<close>

lemma ulp_pos: "0 < ulp v"
  by (simp add: ulp_def)

lemma round_even_of_int: "round_even (of_int k) = k"
  by (simp add: round_even_def)

lemma round_even_between: "\<lfloor>q\<rfloor> \<le> round_even q \<and> round_even q \<le> \<lfloor>q\<rfloor> + 1"
  by (simp add: round_even_def Let_def)

lemma round_even_mono:
  assumes "q \<le> q'"
  shows "round_even q \<le> round_even q'"
proof (cases "\<lfloor>q\<rfloor> < \<lfloor>q'\<rfloor>")
  case True
  then show ?thesis
    using round_even_between [of q] round_even_between [of q'] by linarith
next
  case False
  then have "\<lfloor>q\<rfloor> = \<lfloor>q'\<rfloor>"
    using assms floor_mono [of q q'] by linarith
  then show ?thesis
    using assms by (auto simp: round_even_def Let_def)
qed

lemma round_even_lower: "of_int a \<le> q \<Longrightarrow> a \<le> round_even q"
  using round_even_mono [of "of_int a" q] by (simp add: round_even_of_int)

lemma round_even_upper: "q \<le> of_int b \<Longrightarrow> round_even q \<le> b"
  using round_even_mono [of q "of_int b"] by (simp add: round_even_of_int)

lemma round_even_minus: "round_even (- q) = - round_even q"
proof (cases "q = of_int \<lfloor>q\<rfloor>")
  case True
  then obtain k where "q = of_int k" ..
  then have "- q = of_int (- k)" by simp
  then show ?thesis
    using \<open>q = of_int k\<close> round_even_of_int by metis
next
  case False
  then have "\<lfloor>- q\<rfloor> = - \<lfloor>q\<rfloor> - 1"
    by (simp add: floor_minus ceiling_altdef)
  then show ?thesis
    by (auto simp: round_even_def Let_def)
qed

lemma binade_minus: "binade (- v) = binade v"
  by (simp add: binade_def)

lemma ulp_minus: "ulp (- v) = ulp v"
  by (simp add: ulp_def binade_minus)

lemma round_double_minus: "round_double (- v) = - round_double v"
  by (simp add: round_double_def ulp_minus round_even_minus)

lemma round_double_zero: "round_double 0 = 0"
  by (simp add: round_double_def)

lemma binade_upper:
  assumes "0 < v"
  shows "v < 2 powr (of_int (binade v) + 1)"
proof -
  have "log 2 v < of_int \<lfloor>log 2 v\<rfloor> + 1"
    by linarith
  also have "\<dots> \<le> of_int (binade v) + 1"
    using assms by (simp add: binade_def)
  finally have "log 2 v < of_int (binade v) + 1" .
  then show ?thesis
    using assms by (simp add: log_less_iff)
qed

lemma binade_lower:
  assumes "0 < v" "binade v \<noteq> - 1022"
  shows "2 powr of_int (binade v) \<le> v"
proof -
  have "binade v = \<lfloor>log 2 v\<rfloor>"
    using assms by (simp add: binade_def max_def split: if_splits)
  then have "of_int (binade v) \<le> log 2 v"
    by simp
  then show ?thesis
    using assms(1) by (simp add: powr_le_iff)
qed

lemma binade_mono:
  assumes "0 < v" "v \<le> u"
  shows "binade v \<le> binade u"
proof -
  have "log 2 v \<le> log 2 u"
    using assms by (simp add: log_mono)
  then have "\<lfloor>log 2 v\<rfloor> \<le> \<lfloor>log 2 u\<rfloor>"
    by (rule floor_mono)
  then show ?thesis
    using assms by (simp add: binade_def)
qed

lemma ulp_scale: "2 powr (of_int (binade v) + c) = 2 powr (52 + c) * ulp v"
  unfolding ulp_def powr_add [symmetric] by (simp add: algebra_simps)

lemma round_double_nonneg:
  assumes "0 < v"
  shows "0 \<le> round_double v"
proof -
  have "of_int 0 \<le> v / ulp v"
    using assms ulp_pos [of v] by simp
  then have "0 \<le> round_even (v / ulp v)"
    by (rule round_even_lower)
  then show ?thesis
    using assms ulp_pos [of v] by (simp add: round_double_def)
qed

lemma round_double_le_next_power:
  assumes "0 < v"
  shows "round_double v \<le> 2 powr (of_int (binade v) + 1)"
proof -
  have "v < 2 powr 53 * ulp v"
    using binade_upper [OF assms] ulp_scale [of v 1] by simp
  then have "v / ulp v \<le> 2 ^ 53"
    using ulp_pos [of v] by (simp add: pos_divide_le_eq)
  then have "v / ulp v \<le> of_int (2 ^ 53)"
    by simp
  then have "round_even (v / ulp v) \<le> 2 ^ 53"
    by (rule round_even_upper)
  then have "of_int (round_even (v / ulp v)) \<le> (2 ^ 53 :: real)"
    by (metis of_int_le_iff of_int_numeral of_int_power)
  then have "of_int (round_even (v / ulp v)) * ulp v \<le> 2 ^ 53 * ulp v"
    using ulp_pos [of v] by (simp add: mult_right_mono)
  then show ?thesis
    using assms ulp_scale [of v 1] by (simp add: round_double_def)
qed

lemma round_double_ge_power:
  assumes "0 < v" "2 powr of_int (binade v) \<le> v"
  shows "2 powr of_int (binade v) \<le> round_double v"
proof -
  have "2 powr 52 * ulp v \<le> v"
    using assms(2) ulp_scale [of v 0] by simp
  then have "2 ^ 52 \<le> v / ulp v"
    using ulp_pos [of v] by (simp add: pos_le_divide_eq)
  then have "of_int (2 ^ 52) \<le> v / ulp v"
    by simp
  then have "2 ^ 52 \<le> round_even (v / ulp v)"
    by (rule round_even_lower)
  then have "(2 ^ 52 :: real) \<le> of_int (round_even (v / ulp v))"
    by (metis of_int_le_iff of_int_numeral of_int_power)
  then have "2 ^ 52 * ulp v \<le> of_int (round_even (v / ulp v)) * ulp v"
    using ulp_pos [of v] by (simp add: mult_right_mono)
  then show ?thesis
    using assms(1) ulp_scale [of v 0] by (simp add: round_double_def)
qed

lemma round_double_mono_pos:
  assumes "0 < v" "v \<le> u"
  shows "round_double v \<le> round_double u"
proof (cases "binade v = binade u")
  case True
  then have u: "ulp v = ulp u"
    by (simp add: ulp_def)
  have "v / ulp u \<le> u / ulp u"
    using assms ulp_pos [of u] by (simp add: divide_right_mono)
  then have "round_even (v / ulp u) \<le> round_even (u / ulp u)"
    by (rule round_even_mono)
  then have "of_int (round_even (v / ulp u)) * ulp u \<le> of_int (round_even (u / ulp u)) * ulp u"
    using ulp_pos [of u] by (simp add: mult_right_mono)
  then show ?thesis
    using assms u by (simp add: round_double_def)
next
  case False
  then have less: "binade v < binade u"
    using binade_mono [OF assms] by simp
  have "- 1022 \<le> binade v"
    by (simp add: binade_def)
  then have "binade u \<noteq> - 1022"
    using less by simp
  then have "2 powr of_int (binade u) \<le> u"
    using assms by (intro binade_lower) simp_all
  then have low: "2 powr of_int (binade u) \<le> round_double u"
    using assms by (intro round_double_ge_power) simp_all
  have "of_int (binade v) + 1 \<le> (of_int (binade u) :: real)"
    using less by linarith
  then have "(2::real) powr (of_int (binade v) + 1) \<le> 2 powr of_int (binade u)"
    by (intro powr_mono) simp_all
  then show ?thesis
    using round_double_le_next_power [OF assms(1)] low by linarith
qed

lemma round_double_mono:
  assumes "v \<le> u"
  shows "round_double v \<le> round_double u"
proof -
  consider "0 < v" | "v = 0" | "v < 0" "u < 0" | "v < 0" "0 \<le> u"
    by linarith
  then show ?thesis
  proof cases
    case 1
    then show ?thesis using assms by (rule round_double_mono_pos)
  next
    case 2
    then show ?thesis
      using assms round_double_nonneg [of u] by (cases "u = 0") (simp_all add: round_double_zero)
  next
    case 3
    then have "round_double (- u) \<le> round_double (- v)"
      using assms by (intro round_double_mono_pos) simp_all
    then show ?thesis
      by (simp add: round_double_minus)
  next
    case 4
    have "0 \<le> round_double (- v)"
      using 4 by (intro round_double_nonneg) simp
    then have "round_double v \<le> 0"
      by (simp add: round_double_minus)
    moreover have "0 \<le> round_double u"
      using 4 round_double_nonneg [of u] by (cases "u = 0") (simp_all add: round_double_zero)
    ultimately show ?thesis by linarith
  qed
qed

lemma round_double_scaled:
  assumes "n \<le> 1074" "2 ^ 52 \<le> \<bar>v\<bar> * 2 ^ n" "\<bar>v\<bar> * 2 ^ n < 2 ^ 53"
  shows "round_double v = of_int (round_even (v * 2 ^ n)) / 2 ^ n"
proof -
  have nz: "v \<noteq> 0" "0 < \<bar>v\<bar>"
    using assms(2) by auto
  have p: "(2::real) powr of_int (52 - int n) = 2 ^ 52 / 2 ^ n"
    by (simp add: powr_diff powr_realpow)
  have p1: "(2::real) powr of_int (52 - int n + 1) = 2 ^ 53 / 2 ^ n"
    by (simp add: powr_diff powr_add powr_realpow)
  have "2 powr of_int (52 - int n) \<le> \<bar>v\<bar> \<and> \<bar>v\<bar> < 2 powr of_int (52 - int n + 1)"
    unfolding p p1 using assms(2,3) by (simp add: pos_divide_le_eq pos_less_divide_eq)
  then have "\<lfloor>log 2 \<bar>v\<bar>\<rfloor> = 52 - int n"
    using nz by (simp add: floor_log_eq_powr_iff)
  then have "binade v = 52 - int n"
    using assms(1) by (simp add: binade_def)
  then have "ulp v = 1 / 2 ^ n"
    by (simp add: ulp_def powr_minus_divide powr_realpow)
  then show ?thesis
    using nz by (simp add: round_double_def)
qed

lemma round_double_int:
  assumes "v \<in> \<int>" "\<bar>v\<bar> < 2 ^ 53"
  shows "round_double v = v"
proof (cases "v = 0")
  case True
  then show ?thesis by (simp add: round_double_zero)
next
  case False
  obtain k where k: "v = of_int k"
    using assms(1) by (auto elim: Ints_cases)
  have one: "1 \<le> \<bar>v\<bar>"
    using False k by (simp flip: of_int_abs)
  define e where "e = \<lfloor>log 2 \<bar>v\<bar>\<rfloor>"
  have e0: "0 \<le> e"
    using one by (simp add: e_def)
  have "log 2 \<bar>v\<bar> < 53"
    using one assms(2) by (simp add: log_less_iff)
  then have e52: "e \<le> 52"
    unfolding e_def by linarith
  define n where "n = nat (52 - e)"
  have n: "int n = 52 - e" "n \<le> 1074"
    using e0 e52 by (simp_all add: n_def)
  have bnd: "2 powr of_int e \<le> \<bar>v\<bar> \<and> \<bar>v\<bar> < 2 powr of_int (e + 1)"
    using one floor_log_eq_powr_iff [of "\<bar>v\<bar>" 2 e] by (simp add: e_def)
  have pn: "(2::real) ^ n = 2 powr (52 - of_int e)"
    using n(1) by (metis of_int_diff of_int_numeral of_int_of_nat_eq powr_realpow zero_less_numeral)
  have "2 powr of_int e * 2 powr (52 - of_int e) \<le> \<bar>v\<bar> * 2 ^ n"
    unfolding pn using bnd by (intro mult_right_mono) simp_all
  then have lo: "2 ^ 52 \<le> \<bar>v\<bar> * 2 ^ n"
    by (simp flip: powr_add)
  have "\<bar>v\<bar> * 2 ^ n < 2 powr of_int (e + 1) * 2 powr (52 - of_int e)"
    unfolding pn using bnd by (intro mult_strict_right_mono) simp_all
  then have hi: "\<bar>v\<bar> * 2 ^ n < 2 ^ 53"
    by (simp flip: powr_add)
  have "v * 2 ^ n = of_int (k * 2 ^ n)"
    using k by simp
  then have "of_int (round_even (v * 2 ^ n)) = v * 2 ^ n"
    using round_even_of_int [of "k * 2 ^ n"] by simp
  then show ?thesis
    using round_double_scaled [OF n(2) lo hi] by simp
qed

lemma round_double_16_666: "round_double 16.666 = 4691061961859793 / 2 ^ 48"
  by (simp add: round_double_scaled [where n = 48] round_even_def)

subsection \<open>The operators on finite operands\<close>

lemma to_num_int:
  assumes "v \<in> \<int>" "\<bar>v\<bar> < 2 ^ 53"
  shows "to_num neg v = (if v = 0 then signed_zero neg else Fin v)"
proof -
  have "round_double v = v"
    using assms by (rule round_double_int)
  moreover have "v < 2 ^ 1024" "- (2 ^ 1024) < v"
    using assms(2) by simp_all
  ultimately show ?thesis
    by (simp add: to_num_def signed_zero_def)
qed

lemma js_sub_Fin:
  "js_sub (Fin a) (Fin b) = (if a - b = 0 then Fin 0 else to_num (a - b < 0) (a - b))"
  by (simp add: signed_zero_def Let_def)

lemma js_sub_int:
  assumes "a - b \<in> \<int>" "\<bar>a - b\<bar> < 2 ^ 53"
  shows "js_sub (Fin a) (Fin b) = Fin (a - b)"
  using to_num_int [OF assms] by (simp add: js_sub_Fin signed_zero_def del: js_sub.simps)

lemma js_sub_self: "js_sub (Fin a) (Fin a) = Fin 0"
  by (simp add: js_sub_Fin del: js_sub.simps)

lemma js_sub_double_zero:
  assumes "is_double a"
  shows "js_sub (Fin a) (Fin 0) = Fin a"
  using assms by (auto simp: js_sub_Fin to_num_def is_double_def signed_zero_def simp del: js_sub.simps)

lemma js_rem_Fin:
  "js_rem (Fin n) (Fin d) =
     (if d = 0 then NaN
      else if n = 0 then Fin 0
      else if n - d * of_int (js_trunc (n / d)) = 0 then signed_zero (n < 0)
      else Fin (n - d * of_int (js_trunc (n / d))))"
  by (simp add: Let_def)

lemma js_rem_pos:
  assumes "0 < d" "0 \<le> n"
  shows "js_rem (Fin n) (Fin d) = Fin (real_mod n d)"
  using assms
  by (simp add: js_rem_Fin js_trunc_def real_mod_def signed_zero_def del: js_rem.simps)

lemma js_gt_Fin: "js_gt (Fin a) (Fin b) \<longleftrightarrow> b < a"
  by (simp add: js_gt_def)

lemma js_literal_16_666: "js_literal 16.666 = Fin (4691061961859793 / 2 ^ 48)"
  unfolding js_literal_def to_num_def round_double_16_666 by (simp add: Let_def)

lemma js_sub_not_below:
  assumes "c < a - b" "0 < round_double c"
  shows "\<not> js_lt (js_sub (Fin a) (Fin b)) (Fin (round_double c))"
proof -
  have "round_double c \<le> round_double (a - b)"
    using assms(1) by (intro round_double_mono) simp
  then show ?thesis
    using assms
    by (auto simp: js_sub_Fin to_num_def signed_zero_def Let_def round_double_zero
        simp del: js_sub.simps)
qed

section \<open>Properties of the input state tracker\<close>

lemma button_code_nonzero: "button_code btn \<noteq> 0"
  by (cases btn) simp_all

lemma onkeydown_mapped:
  "keyToButton key = Some btn \<Longrightarrow>
     onkeydown key t bs = (if bs btn = 0 then bs(btn := t) else bs)"
  by (simp add: onkeydown_def button_code_nonzero)

lemma onkeyup_mapped:
  "keyToButton key = Some btn \<Longrightarrow> onkeyup key bs = bs(btn := 0)"
  by (simp add: onkeyup_def button_code_nonzero)

lemma onkeydown_unmapped: "keyToButton key = None \<Longrightarrow> onkeydown key t bs = bs"
  by (simp add: onkeydown_def)

lemma onkeyup_unmapped: "keyToButton key = None \<Longrightarrow> onkeyup key bs = bs"
  by (simp add: onkeyup_def)

lemma keyToButton_None_iff:
  "keyToButton key = None \<longleftrightarrow>
     key \<notin> {''z'', ''x'', ''ArrowUp'', ''ArrowDown'', ''ArrowLeft'', ''ArrowRight'',
             ''Enter'', '' ''}"
  by (simp add: keyToButton_def)

lemma handle_event_other:
  "keyToButton (event_key e) \<noteq> Some btn \<Longrightarrow> handle_event e bs btn = bs btn"
  by (cases e; cases "keyToButton (event_key e)")
     (auto simp: onkeydown_def onkeyup_def)

lemma handle_events_other:
  "\<forall>e \<in> set es. keyToButton (event_key e) \<noteq> Some btn \<Longrightarrow>
     handle_events es bs btn = bs btn"
  by (induction es arbitrary: bs) (simp_all add: handle_event_other)

lemma handle_event_nonneg:
  "event_time_ok e \<Longrightarrow> \<forall>b. 0 \<le> bs b \<Longrightarrow> 0 \<le> handle_event e bs b"
  by (cases e; cases "keyToButton (event_key e)")
     (auto simp: onkeydown_def onkeyup_def)

lemma handle_events_nonneg:
  "\<forall>e \<in> set es. event_time_ok e \<Longrightarrow> \<forall>b. 0 \<le> bs b \<Longrightarrow> 0 \<le> handle_events es bs b"
proof (induction es arbitrary: bs)
  case Nil
  then show ?case by simp
next
  case (Cons e es)
  have "\<forall>b. 0 \<le> handle_event e bs b"
    using Cons.prems by (simp add: handle_event_nonneg)
  then show ?case
    using Cons.IH [of "handle_event e bs"] Cons.prems by simp
qed

lemma keydown_never_decreases:
  "0 \<le> t \<Longrightarrow> bs btn \<le> onkeydown key t bs btn"
  by (cases "keyToButton key") (auto simp: onkeydown_def)

lemma cleared_only_by_release:
  "bs btn \<noteq> 0 \<Longrightarrow> handle_event e bs btn = 0 \<Longrightarrow>
     is_release e \<and> keyToButton (event_key e) = Some btn"
  by (cases e; cases "keyToButton (event_key e)")
     (auto simp: onkeydown_def onkeyup_def split: if_splits)

text \<open>
  Claim C4. For a key that resolves to a button: a key-down while the stored timestamp
  is 0 stores the clock reading; a key-down while it is nonzero leaves the whole table
  as it was; a key-up stores 0 whatever was there.
\<close>

theorem key_handlers_timestamp:
  "(keyToButton key = Some btn \<and> bs btn = 0 \<longrightarrow> onkeydown key t bs = bs(btn := t)) \<and>
   (keyToButton key = Some btn \<and> bs btn \<noteq> 0 \<longrightarrow> onkeydown key t bs = bs) \<and>
   (keyToButton key = Some btn \<longrightarrow> onkeyup key bs = bs(btn := 0))"
  by (simp add: onkeydown_mapped onkeyup_mapped)

theorem key_handlers_timestamp_witness:
  "keyToButton ''z'' = Some A \<and> BUTTONS A = 0 \<and>
   onkeydown ''z'' 5 BUTTONS = BUTTONS(A := 5) \<and>
   (BUTTONS(A := 5)) A \<noteq> 0 \<and>
   onkeydown ''z'' 7 (BUTTONS(A := 5)) = BUTTONS(A := 5) \<and>
   onkeyup ''z'' (BUTTONS(A := 5)) = (BUTTONS(A := 5))(A := 0)"
  using key_handlers_timestamp [of "''z''" A BUTTONS 5]
        key_handlers_timestamp [of "''z''" A "BUTTONS(A := 5)" 7]
  by (simp add: keyToButton_def BUTTONS_def)

lemma literal_16_666: "js_literal 16.666 = Fin (round_double 16.666)"
  unfolding js_literal_16_666 round_double_16_666 ..

lemma round_double_16_666_above: "16.666 < round_double 16.666"
  unfolding round_double_16_666 by simp

lemma round_double_16_666_pos: "0 < round_double 16.666"
  unfolding round_double_16_666 by simp

text \<open>
  A computed difference lies on the grid of the doubles, and no double lies between
  the decimal 16.666 and the constant that the literal denotes; so comparing it with
  either gives the same answer.
\<close>

lemma round_double_nonpos:
  assumes "v \<le> 0"
  shows "round_double v \<le> 0"
  using round_double_mono [OF assms] by (simp add: round_double_zero)

lemma round_double_grid:
  assumes "16 < round_double v" "round_double v < 32"
  shows "\<exists>k. round_double v = of_int k / 2 ^ 48"
proof -
  have pos: "0 < v"
    using assms(1) round_double_nonpos [of v] by (cases "0 < v") simp_all
  have "(16::real) < 2 powr (of_int (binade v) + 1)"
    using assms(1) round_double_le_next_power [OF pos] by linarith
  then have "(2::real) powr 4 < 2 powr (of_int (binade v) + 1)"
    by simp
  then have "4 < of_int (binade v) + (1::real)"
    by (simp only: powr_less_cancel_iff) 
  then have low: "4 \<le> binade v"
    by linarith
  have high: "binade v \<le> 4"
  proof (rule ccontr)
    assume "\<not> binade v \<le> 4"
    then have five: "5 \<le> binade v"
      by simp
    then have "2 powr of_int (binade v) \<le> v"
      using pos by (intro binade_lower) simp_all
    then have "2 powr of_int (binade v) \<le> round_double v"
      using pos by (intro round_double_ge_power) simp_all
    moreover have "(2::real) powr 5 \<le> 2 powr of_int (binade v)"
      using five by (intro powr_mono) simp_all
    ultimately show False
      using assms(2) by simp
  qed
  have "binade v = 4"
    using low high by simp
  then have u: "ulp v = 1 / 2 ^ 48"
    by (simp add: ulp_def powr_minus_divide)
  have "round_double v = of_int (round_even (v / ulp v)) * ulp v"
    using pos by (simp add: round_double_def)
  then have "round_double v = of_int (round_even (v * 2 ^ 48)) / 2 ^ 48"
    unfolding u by simp
  then show ?thesis ..
qed

lemma below_16_666_iff:
  "round_double v < round_double 16.666 \<longleftrightarrow> round_double v < 16.666"
proof
  assume "round_double v < 16.666"
  then show "round_double v < round_double 16.666"
    using round_double_16_666_above by (rule less_trans)
next
  assume below: "round_double v < round_double 16.666"
  show "round_double v < 16.666"
  proof (cases "16 < round_double v")
    case False
    then show ?thesis by simp
  next
    case True
    have "round_double v < 32"
      using below unfolding round_double_16_666 by simp
    then obtain k :: int where k: "round_double v = of_int k / 2 ^ 48"
      using True round_double_grid by blast
    have "of_int k / 2 ^ 48 < (4691061961859793 / 2 ^ 48 :: real)"
      using below unfolding k round_double_16_666 .
    then have "(of_int k :: real) < 4691061961859793"
      by simp
    then have "k \<le> 4691061961859792"
      by linarith
    then have "(of_int k :: real) \<le> 4691061961859792"
      by (metis of_int_le_iff of_int_numeral)
    then show ?thesis
      unfolding k by simp
  qed
qed

lemma js_sub_finite_cases:
  assumes "js_sub (Fin a) (Fin b) = Fin d"
  shows "d = round_double (a - b)"
  using assms
  by (auto simp: js_sub_Fin to_num_def signed_zero_def Let_def round_double_zero
      simp del: js_sub.simps split: if_splits)

lemma pressed_iff_below:
  assumes "js_sub (Fin now) (Fin (bs btn)) = Fin d"
  shows "isButtonPressed btn now bs \<longleftrightarrow> d < 16.666"
proof -
  have d: "d = round_double (now - bs btn)"
    using assms by (rule js_sub_finite_cases)
  have "isButtonPressed btn now bs \<longleftrightarrow> js_lt (Fin d) (Fin (round_double 16.666))"
    unfolding isButtonPressed_def Let_def assms literal_16_666 ..
  also have "\<dots> \<longleftrightarrow> d < round_double 16.666"
    by (simp only: js_lt.simps num_val.simps)
  also have "\<dots> \<longleftrightarrow> d < 16.666"
    unfolding d by (rule below_16_666_iff)
  finally show ?thesis .
qed

text \<open>
  Claim C6. \<^const>\<open>isButtonPressed\<close> is true exactly when the clock reading minus the
  stored timestamp, as the program computes it, is below 16.666. Hence, for a button
  that was released and is pressed at time \<open>t\<close>, and whatever events for other
  buttons follow: the query at \<open>t\<close> itself is true, and the query at any time more
  than 16.666 ms after \<open>t\<close> is false.
\<close>

theorem just_pressed_window:
  "(isButtonPressed btn now bs \<longleftrightarrow>
      js_lt (js_sub (Fin now) (Fin (bs btn))) (js_literal 16.666)) \<and>
   (js_sub (Fin now) (Fin (bs btn)) = Fin d \<longrightarrow>
      (isButtonPressed btn now bs \<longleftrightarrow> d < 16.666)) \<and>
   (keyToButton key = Some btn \<and> bs btn = 0 \<and>
    (\<forall>e \<in> set es. keyToButton (event_key e) \<noteq> Some btn) \<longrightarrow>
      isButtonPressed btn t (handle_events es (onkeydown key t bs)) \<and>
      (\<forall>later. later - t > 16.666 \<longrightarrow>
         \<not> isButtonPressed btn later (handle_events es (onkeydown key t bs))))"
proof -
  have first: "isButtonPressed btn now bs \<longleftrightarrow>
      js_lt (js_sub (Fin now) (Fin (bs btn))) (js_literal 16.666)"
    by (simp add: isButtonPressed_def Let_def)
  have second: "isButtonPressed btn t (handle_events es (onkeydown key t bs)) \<and>
      (\<forall>later. later - t > 16.666 \<longrightarrow>
         \<not> isButtonPressed btn later (handle_events es (onkeydown key t bs)))"
    if mapped: "keyToButton key = Some btn" and released: "bs btn = 0"
      and others: "\<forall>e \<in> set es. keyToButton (event_key e) \<noteq> Some btn"
  proof -
    have stored: "handle_events es (onkeydown key t bs) btn = t"
      using mapped released others by (simp add: handle_events_other onkeydown_mapped)
    have at_press: "js_lt (js_sub (Fin t) (Fin t)) (js_literal 16.666)"
      unfolding literal_16_666 js_sub_self using round_double_16_666_pos by simp
    have after: "\<not> js_lt (js_sub (Fin later) (Fin t)) (js_literal 16.666)"
      if "later - t > 16.666" for later
      unfolding literal_16_666
      using that round_double_16_666_pos by (intro js_sub_not_below) simp_all
    show ?thesis
      using at_press after by (simp add: isButtonPressed_def Let_def stored del: js_sub.simps)
  qed
  show ?thesis
    using first pressed_iff_below [of now bs btn d] second by blast
qed

theorem just_pressed_window_witness:
  "js_sub (Fin 117) (Fin ((BUTTONS(A := 100)) A)) = Fin 17 \<and>
   \<not> isButtonPressed A 117 (BUTTONS(A := 100)) \<and>
   keyToButton ''z'' = Some A \<and> BUTTONS A = 0 \<and>
   keyToButton (event_key (KeyDown ''x'' 101)) \<noteq> Some A \<and>
   keyToButton (event_key (KeyUp ''ArrowUp'')) \<noteq> Some A \<and>
   isButtonPressed A 100
     (handle_events [KeyDown ''x'' 101, KeyUp ''ArrowUp''] (onkeydown ''z'' 100 BUTTONS)) \<and>
   117 - 100 > (16.666 :: real) \<and>
   \<not> isButtonPressed A 117
     (handle_events [KeyDown ''x'' 101, KeyUp ''ArrowUp''] (onkeydown ''z'' 100 BUTTONS))"
proof -
  have sub: "js_sub (Fin 117) (Fin ((BUTTONS(A := 100)) A)) = Fin 17"
    by (simp add: js_sub_int del: js_sub.simps)
  have "isButtonPressed A 117 (BUTTONS(A := 100)) \<longleftrightarrow> (17::real) < 16.666"
    using just_pressed_window [where btn = A and now = 117 and bs = "BUTTONS(A := 100)"
        and d = 17] sub by blast
  then have held: "\<not> isButtonPressed A 117 (BUTTONS(A := 100))"
    by simp
  have press: "keyToButton ''z'' = Some A \<and> BUTTONS A = 0 \<and>
      (\<forall>e \<in> set [KeyDown ''x'' 101, KeyUp ''ArrowUp'']. keyToButton (event_key e) \<noteq> Some A)"
    by (simp add: keyToButton_def BUTTONS_def)
  have window: "isButtonPressed A 100
       (handle_events [KeyDown ''x'' 101, KeyUp ''ArrowUp''] (onkeydown ''z'' 100 BUTTONS)) \<and>
     (\<forall>later. later - 100 > 16.666 \<longrightarrow> \<not> isButtonPressed A later
       (handle_events [KeyDown ''x'' 101, KeyUp ''ArrowUp''] (onkeydown ''z'' 100 BUTTONS)))"
    using just_pressed_window [where btn = A and bs = BUTTONS and key = "''z''" and t = 100
        and es = "[KeyDown ''x'' 101, KeyUp ''ArrowUp'']"] press by blast
  have late: "117 - 100 > (16.666 :: real)"
    by simp
  have "\<not> isButtonPressed A 117
       (handle_events [KeyDown ''x'' 101, KeyUp ''ArrowUp''] (onkeydown ''z'' 100 BUTTONS))"
    using window late by blast
  then show ?thesis
    using sub held press window late by simp
qed

text \<open>
  Claim C7. In every table reached from the initial one by key events whose clock
  readings are not negative, \<^const>\<open>isButtonDown\<close> is true exactly when the stored
  timestamp is nonzero; an event that is not a release never lowers a stored value; and
  a stored value goes from nonzero to 0 only by a release of that button.
\<close>

theorem down_iff_nonzero:
  assumes "\<forall>e \<in> set es. event_time_ok e"
    and "bs = handle_events es BUTTONS"
  shows "(isButtonDown btn bs \<longleftrightarrow> bs btn \<noteq> 0) \<and>
         (event_time_ok e \<and> \<not> is_release e \<longrightarrow> bs btn \<le> handle_event e bs btn) \<and>
         (bs btn \<noteq> 0 \<and> handle_event e bs btn = 0 \<longrightarrow>
            is_release e \<and> keyToButton (event_key e) = Some btn)"
proof -
  have nonneg: "0 \<le> bs btn"
    using assms handle_events_nonneg [of es BUTTONS btn] by (simp add: BUTTONS_def)
  have down: "isButtonDown btn bs \<longleftrightarrow> bs btn \<noteq> 0"
    using nonneg by (auto simp: isButtonDown_def)
  have mono: "event_time_ok e \<and> \<not> is_release e \<longrightarrow> bs btn \<le> handle_event e bs btn"
    by (cases e) (simp_all add: keydown_never_decreases)
  show ?thesis
    using down mono cleared_only_by_release [of bs btn e] by blast
qed

theorem down_iff_nonzero_witness:
  "event_time_ok (KeyDown ''z'' 5) \<and> event_time_ok (KeyUp ''x'') \<and>
   isButtonDown A (handle_events [KeyDown ''z'' 5, KeyUp ''x''] BUTTONS) \<and>
   handle_events [KeyDown ''z'' 5, KeyUp ''x''] BUTTONS A \<noteq> 0 \<and>
   event_time_ok (KeyDown ''z'' 9) \<and> \<not> is_release (KeyDown ''z'' 9) \<and>
   handle_events [KeyDown ''z'' 5, KeyUp ''x''] BUTTONS A
     \<le> handle_event (KeyDown ''z'' 9)
         (handle_events [KeyDown ''z'' 5, KeyUp ''x''] BUTTONS) A \<and>
   handle_event (KeyUp ''z'') (handle_events [KeyDown ''z'' 5, KeyUp ''x''] BUTTONS) A = 0 \<and>
   is_release (KeyUp ''z'')"
  using down_iff_nonzero [of "[KeyDown ''z'' 5, KeyUp ''x'']" _ A "KeyDown ''z'' 9", OF _ refl]
        down_iff_nonzero [of "[KeyDown ''z'' 5, KeyUp ''x'']" _ A "KeyUp ''z''", OF _ refl]
  by (simp add: keyToButton_def BUTTONS_def onkeydown_def onkeyup_def isButtonDown_def)

text \<open>
  Claim C8. A key string that is none of the eight labels of the mapping resolves to no
  button, and both handlers return the table they were given. (Neither handler has a
  path that throws.)
\<close>

theorem unmapped_key_ignored:
  "key \<notin> {''z'', ''x'', ''ArrowUp'', ''ArrowDown'', ''ArrowLeft'', ''ArrowRight'',
           ''Enter'', '' ''}
   \<Longrightarrow> keyToButton key = None \<and> onkeydown key t bs = bs \<and> onkeyup key bs = bs"
  using keyToButton_None_iff [of key] by (simp add: onkeydown_unmapped onkeyup_unmapped)

theorem unmapped_key_ignored_witness:
  "''q'' \<notin> {''z'', ''x'', ''ArrowUp'', ''ArrowDown'', ''ArrowLeft'', ''ArrowRight'',
            ''Enter'', '' ''} \<and>
   keyToButton ''q'' = None \<and>
   onkeydown ''q'' 5 (BUTTONS(B := 3)) = BUTTONS(B := 3) \<and>
   onkeyup ''q'' (BUTTONS(B := 3)) = BUTTONS(B := 3)"
  using unmapped_key_ignored [of "''q''" 5 "BUTTONS(B := 3)"] by simp

text \<open>
  Claim C9. For a button whose stored timestamp is 0, and so for every button of the
  initial table, \<^const>\<open>isButtonPressed\<close> is true at every clock reading (a double)
  below 16.666 while \<^const>\<open>isButtonDown\<close> is false.
\<close>

theorem pressed_without_down:
  "(is_double now \<and> bs btn = 0 \<and> now < 16.666 \<longrightarrow>
      isButtonPressed btn now bs \<and> \<not> isButtonDown btn bs) \<and>
   (is_double now \<and> now < 16.666 \<longrightarrow>
      isButtonPressed btn now BUTTONS \<and> \<not> isButtonDown btn BUTTONS)"
proof -
  have pressed: "isButtonPressed btn now tbl" if "is_double now" "tbl btn = 0" "now < 16.666"
    for tbl
  proof -
    have "now < round_double 16.666"
      using that(3) round_double_16_666_above by (rule less_trans)
    then have "js_lt (js_sub (Fin now) (Fin 0)) (js_literal 16.666)"
      unfolding literal_16_666 js_sub_double_zero [OF that(1)] by simp
    then show ?thesis
      using that(2) by (simp add: isButtonPressed_def Let_def del: js_sub.simps)
  qed
  show ?thesis
    using pressed [of bs] pressed [of BUTTONS]
    by (simp add: isButtonDown_def BUTTONS_def)
qed

theorem pressed_without_down_witness:
  "is_double 10 \<and> (onkeyup ''x'' (BUTTONS(B := 2))) B = 0 \<and> (10::real) < 16.666 \<and>
   isButtonPressed B 10 (onkeyup ''x'' (BUTTONS(B := 2))) \<and>
   \<not> isButtonDown B (onkeyup ''x'' (BUTTONS(B := 2))) \<and>
   isButtonPressed Start 10 BUTTONS \<and> \<not> isButtonDown Start BUTTONS"
  using pressed_without_down [of 10 "onkeyup ''x'' (BUTTONS(B := 2))" B]
        pressed_without_down [of 10 _ Start]
  by (simp add: onkeyup_def keyToButton_def is_double_def round_double_int)

text \<open>
  Claim C10, as amended. The mapping compares strings exactly: a key resolves to
  button A only if it is the string z and to button B only if it is the string x; a
  key that is none of the eight labels of the mapping, such as the upper-case strings
  Z and X, resolves to no button; so a key-up delivered as Z leaves the table as the
  key-down of z made it, and button A pressed from the initial table stays down.
\<close>

theorem key_mapping_case_sensitive:
  "(keyToButton key = Some A \<longleftrightarrow> key = ''z'') \<and>
   (keyToButton key = Some B \<longleftrightarrow> key = ''x'') \<and>
   (key \<notin> {''z'', ''x'', ''ArrowUp'', ''ArrowDown'', ''ArrowLeft'', ''ArrowRight'',
            ''Enter'', '' ''} \<longrightarrow> keyToButton key = None) \<and>
   keyToButton ''Z'' = None \<and> keyToButton ''X'' = None \<and>
   onkeyup ''Z'' (onkeydown ''z'' t bs) = onkeydown ''z'' t bs \<and>
   (0 < t \<longrightarrow> isButtonDown A (onkeyup ''Z'' (onkeydown ''z'' t BUTTONS)))"
  by (auto simp: keyToButton_def onkeyup_def onkeydown_def isButtonDown_def BUTTONS_def)

theorem key_mapping_case_sensitive_witness:
  "''q'' \<notin> {''z'', ''x'', ''ArrowUp'', ''ArrowDown'', ''ArrowLeft'', ''ArrowRight'',
            ''Enter'', '' ''} \<and> keyToButton ''q'' = None \<and>
   (0::real) < 5 \<and> isButtonDown A (onkeyup ''Z'' (onkeydown ''z'' 5 BUTTONS)) \<and>
   \<not> isButtonDown A (onkeyup ''z'' (onkeydown ''z'' 5 BUTTONS))"
  using key_mapping_case_sensitive [of "''q''" 5 BUTTONS]
  by (simp add: keyToButton_def onkeyup_def onkeydown_def isButtonDown_def BUTTONS_def)

text \<open>
  Claim C10 as stated fails for the other six labels: the string ArrowUp is neither z
  nor x, and it resolves to a button.
\<close>

theorem other_label_resolves_counterexample:
  "''ArrowUp'' \<noteq> ''z'' \<and> ''ArrowUp'' \<noteq> ''x'' \<and> keyToButton ''ArrowUp'' = Some Up"
  by (simp add: keyToButton_def)

section \<open>Properties of the frame scheduler\<close>

subsection \<open>What one call of \<^const>\<open>start\<close> does to each variable\<close>

lemmas start_unfold =
  start_def requestAnimationFrame_def stop_def cancelAnimationFrame_def Let_def

lemma start_completes: "fst (start cb iv t w) = Normal"
  by (simp add: start_unfold split: option.split)

lemma start_skip:
  "\<not> js_gt (js_sub (Fin t) (then_v w)) iv \<Longrightarrow>
     snd (start cb iv t w) =
       w\<lparr>pending := pending w @ [next_handle w], next_handle := Suc (next_handle w),
         STARSHIP_TIMER := Some (next_handle w), now_v := Some (Fin t),
         delta_v := Some (js_sub (Fin t) (then_v w))\<rparr>"
  by (simp add: start_unfold)

lemma start_fired:
  "fired (snd (start cb iv t w)) =
     (if js_gt (js_sub (Fin t) (then_v w)) iv then fired w @ [t] else fired w)"
  by (simp add: start_unfold split: option.split)

lemma start_then:
  "then_v (snd (start cb iv t w)) =
     (if js_gt (js_sub (Fin t) (then_v w)) iv
      then js_sub (Fin t) (js_rem (js_sub (Fin t) (then_v w)) iv) else then_v w)"
  by (simp add: start_unfold split: option.split)

lemma start_now: "now_v (snd (start cb iv t w)) = Some (Fin t)"
  by (simp add: start_unfold split: option.split)

lemma start_delta: "delta_v (snd (start cb iv t w)) = Some (js_sub (Fin t) (then_v w))"
  by (simp add: start_unfold split: option.split)

lemma start_user:
  "user (snd (start cb iv t w)) =
     (if js_gt (js_sub (Fin t) (then_v w)) iv then user_after (cb (user w)) else user w)"
  by (simp add: start_unfold split: option.split)

lemma start_timer: "STARSHIP_TIMER (snd (start cb iv t w)) = Some (next_handle w)"
  by (simp add: start_unfold split: option.split)

lemma start_next_handle: "next_handle (snd (start cb iv t w)) = Suc (next_handle w)"
  by (simp add: start_unfold split: option.split)

lemma start_pending:
  "pending (snd (start cb iv t w)) =
     (if js_gt (js_sub (Fin t) (then_v w)) iv \<and> called_stop (cb (user w))
      then removeAll (next_handle w) (pending w) else pending w @ [next_handle w])"
  by (simp add: start_unfold split: option.split)

lemma start_failures:
  "failures (snd (start cb iv t w)) =
     (if js_gt (js_sub (Fin t) (then_v w)) iv
      then (case thrown (cb (user w)) of None \<Rightarrow> failures w | Some e \<Rightarrow> failures w @ [e])
      else failures w)"
  by (simp add: start_unfold split: option.split)

lemma start_console:
  "console (snd (start cb iv t w)) =
     (if js_gt (js_sub (Fin t) (then_v w)) iv
      then (case thrown (cb (user w)) of
              None \<Rightarrow> console w
            | Some e \<Rightarrow> if truthy (error_v w) then console w else console w @ [e])
      else console w)"
  by (simp add: start_unfold split: option.split)

lemma start_error:
  "error_v (snd (start cb iv t w)) =
     (if js_gt (js_sub (Fin t) (then_v w)) iv
      then (case thrown (cb (user w)) of
              None \<Rightarrow> error_v w
            | Some e \<Rightarrow> if truthy (error_v w) then error_v w else e)
      else error_v w)"
  by (simp add: start_unfold split: option.split)

lemma stop_fields:
  "then_v (stop w) = then_v w" "now_v (stop w) = now_v w" "delta_v (stop w) = delta_v w"
  "error_v (stop w) = error_v w" "user (stop w) = user w" "fired (stop w) = fired w"
  "failures (stop w) = failures w" "console (stop w) = console w"
  "next_handle (stop w) = next_handle w" "STARSHIP_TIMER (stop w) = STARSHIP_TIMER w"
  by (simp_all add: stop_def cancelAnimationFrame_def split: option.split)

lemma stop_pending:
  "pending (stop w) =
     (case STARSHIP_TIMER w of None \<Rightarrow> pending w | Some h \<Rightarrow> removeAll h (pending w))"
  by (simp add: stop_def cancelAnimationFrame_def split: option.split)

lemmas start_fields =
  start_fired start_then start_user start_timer start_next_handle start_pending
  start_failures start_console start_error start_now start_delta

lemma notify_empty: "pending w = [] \<Longrightarrow> notify cb iv t w = w"
  by (simp add: notify_def)

lemma notify_Cons:
  "pending w = h # hs \<Longrightarrow> notify cb iv t w = snd (start cb iv t (w\<lparr>pending := hs\<rparr>))"
  by (simp add: notify_def)

lemma notify_fired:
  "fired (notify cb iv t w) =
     (if pending w \<noteq> [] \<and> js_gt (js_sub (Fin t) (then_v w)) iv then fired w @ [t]
      else fired w)"
  by (cases "pending w") (simp_all add: notify_def start_fired)

lemma notify_then:
  "then_v (notify cb iv t w) =
     (if pending w \<noteq> [] \<and> js_gt (js_sub (Fin t) (then_v w)) iv
      then js_sub (Fin t) (js_rem (js_sub (Fin t) (then_v w)) iv)
      else then_v w)"
  by (cases "pending w") (simp_all add: notify_def start_then)

lemma notify_user:
  "user (notify cb iv t w) =
     (if pending w \<noteq> [] \<and> js_gt (js_sub (Fin t) (then_v w)) iv
      then user_after (cb (user w)) else user w)"
  by (cases "pending w") (simp_all add: notify_def start_user)

lemma notify_pending:
  "pending (notify cb iv t w) =
     (case pending w of
        [] \<Rightarrow> []
      | h # hs \<Rightarrow>
          if js_gt (js_sub (Fin t) (then_v w)) iv \<and> called_stop (cb (user w))
          then removeAll (next_handle w) hs else hs @ [next_handle w])"
  by (cases "pending w") (simp_all add: notify_def start_pending)

lemma notify_next_handle:
  "next_handle (notify cb iv t w) =
     (if pending w = [] then next_handle w else Suc (next_handle w))"
  by (cases "pending w") (simp_all add: notify_def start_next_handle)

lemma notify_timer:
  "STARSHIP_TIMER (notify cb iv t w) =
     (if pending w = [] then STARSHIP_TIMER w else Some (next_handle w))"
  by (cases "pending w") (simp_all add: notify_def start_timer)

lemma notify_failures:
  "failures (notify cb iv t w) =
     (if pending w \<noteq> [] \<and> js_gt (js_sub (Fin t) (then_v w)) iv
      then (case thrown (cb (user w)) of None \<Rightarrow> failures w | Some e \<Rightarrow> failures w @ [e])
      else failures w)"
  by (cases "pending w") (simp_all add: notify_def start_failures split: option.split)

lemma notify_console:
  "console (notify cb iv t w) =
     (if pending w \<noteq> [] \<and> js_gt (js_sub (Fin t) (then_v w)) iv
      then (case thrown (cb (user w)) of
              None \<Rightarrow> console w
            | Some e \<Rightarrow> if truthy (error_v w) then console w else console w @ [e])
      else console w)"
  by (cases "pending w") (simp_all add: notify_def start_console split: option.split)

lemma notify_error:
  "error_v (notify cb iv t w) =
     (if pending w \<noteq> [] \<and> js_gt (js_sub (Fin t) (then_v w)) iv
      then (case thrown (cb (user w)) of
              None \<Rightarrow> error_v w
            | Some e \<Rightarrow> if truthy (error_v w) then error_v w else e)
      else error_v w)"
  by (cases "pending w") (simp_all add: notify_def start_error split: option.split)

lemmas notify_fields =
  notify_fired notify_then notify_user notify_pending notify_next_handle notify_timer
  notify_failures notify_console notify_error

lemma single_loop_stop_pending: "single_loop w \<Longrightarrow> pending (stop w) = []"
  by (auto simp: single_loop_def stop_pending split: list.splits option.splits)

lemma setAnimationFrame_fields:
  "then_v (snd (setAnimationFrame cb iv t0 t1 h u)) =
     (if js_gt (js_sub (Fin t1) (Fin t0)) iv
      then js_sub (Fin t1) (js_rem (js_sub (Fin t1) (Fin t0)) iv) else Fin t0)"
  "fired (snd (setAnimationFrame cb iv t0 t1 h u)) =
     (if js_gt (js_sub (Fin t1) (Fin t0)) iv then [t1] else [])"
  "user (snd (setAnimationFrame cb iv t0 t1 h u)) =
     (if js_gt (js_sub (Fin t1) (Fin t0)) iv then user_after (cb u) else u)"
  "STARSHIP_TIMER (snd (setAnimationFrame cb iv t0 t1 h u)) = Some (next_handle h)"
  "next_handle (snd (setAnimationFrame cb iv t0 t1 h u)) = Suc (next_handle h)"
  "fst (setAnimationFrame cb iv t0 t1 h u) = Normal"
  by (simp_all add: setAnimationFrame_def Let_def start_fields stop_fields start_completes
      del: js_sub.simps)

lemma setAnimationFrame_pending:
  assumes "single_loop h"
  shows "pending (snd (setAnimationFrame cb iv t0 t1 h u)) =
           (if js_gt (js_sub (Fin t1) (Fin t0)) iv \<and> called_stop (cb u) then []
            else [next_handle h])"
proof -
  let ?w0 = "\<lparr>pending = pending h, next_handle = next_handle h,
               STARSHIP_TIMER = STARSHIP_TIMER h, console = console h,
               then_v = Fin t0, now_v = None, delta_v = None, error_v = JUndefined,
               user = u, fired = [], failures = []\<rparr>"
  have "single_loop ?w0"
    using assms by (simp add: single_loop_def split: list.splits)
  then have "pending (stop ?w0) = []"
    by (rule single_loop_stop_pending)
  then show ?thesis
    by (simp add: setAnimationFrame_def Let_def start_pending stop_fields del: js_sub.simps)
qed

text \<open>
  Rules for evaluating a trace whose clock readings and interval are small integers:
  there the subtraction is exact.
\<close>

lemmas trace_eval =
  notify_fields setAnimationFrame_fields setAnimationFrame_pending
  js_sub_int js_rem_Fin js_gt_Fin js_trunc_def signed_zero_def

subsection \<open>Ticks and the interval\<close>

text \<open>
  Claim C1, as amended. For a notification at clock reading \<open>t\<close>, with \<open>delta\<close> the
  difference \<open>t - then\<close> as the program computes it: the handler always re-arms the
  request (a new handle, stored in \<^verbatim>\<open>STARSHIP_TIMER\<close>) and writes \<^verbatim>\<open>now\<close> and
  \<^verbatim>\<open>delta\<close>. If \<open>delta\<close> is strictly greater than the interval, the callback is
  called exactly once (the new request stays outstanding unless the callback stopped
  the loop). Otherwise the callback is not called and nothing else changes:
  \<^verbatim>\<open>then\<close>, \<^verbatim>\<open>error\<close>, the log and the user state keep their values.
\<close>

theorem tick_iff_interval_exceeded:
  "(js_gt (js_sub (Fin t) (then_v w)) iv \<longrightarrow>
      fired (snd (start cb iv t w)) = fired w @ [t] \<and>
      STARSHIP_TIMER (snd (start cb iv t w)) = Some (next_handle w) \<and>
      next_handle (snd (start cb iv t w)) = Suc (next_handle w) \<and>
      pending (snd (start cb iv t w)) =
        (if called_stop (cb (user w)) then removeAll (next_handle w) (pending w)
         else pending w @ [next_handle w]) \<and>
      now_v (snd (start cb iv t w)) = Some (Fin t) \<and>
      delta_v (snd (start cb iv t w)) = Some (js_sub (Fin t) (then_v w))) \<and>
   (\<not> js_gt (js_sub (Fin t) (then_v w)) iv \<longrightarrow>
      snd (start cb iv t w) =
        w\<lparr>pending := pending w @ [next_handle w], next_handle := Suc (next_handle w),
          STARSHIP_TIMER := Some (next_handle w), now_v := Some (Fin t),
          delta_v := Some (js_sub (Fin t) (then_v w))\<rparr>)"
  by (simp add: start_fields start_skip)

theorem tick_iff_interval_exceeded_witness:
  "js_gt (js_sub (Fin 21) (then_v (snd (setAnimationFrame counting_cb (Fin 10) 0 0 fresh_host 0))))
     (Fin 10) \<and>
   fired (snd (start counting_cb (Fin 10) 21
     (snd (setAnimationFrame counting_cb (Fin 10) 0 0 fresh_host 0)))) = [21] \<and>
   \<not> js_gt (js_sub (Fin 9) (then_v (snd (setAnimationFrame counting_cb (Fin 10) 0 0 fresh_host 0))))
     (Fin 10) \<and>
   fired (snd (start counting_cb (Fin 10) 9
     (snd (setAnimationFrame counting_cb (Fin 10) 0 0 fresh_host 0)))) = []"
  using tick_iff_interval_exceeded
      [of 21 "snd (setAnimationFrame counting_cb (Fin 10) 0 0 fresh_host 0)" "Fin 10" counting_cb]
    tick_iff_interval_exceeded
      [of 9 "snd (setAnimationFrame counting_cb (Fin 10) 0 0 fresh_host 0)" "Fin 10" counting_cb]
  by (simp add: trace_eval del: js_sub.simps js_rem.simps)

text \<open>
  Claim C1 as stated fails where \<open>delta\<close> equals the interval: with interval 10 and
  \<^verbatim>\<open>then = 0\<close>, the notification at 10 has \<open>delta = 10\<close> and calls nothing. And a
  skipped notification (at 9) does change the scheduler: the pending handle in
  \<^verbatim>\<open>STARSHIP_TIMER\<close> is replaced.
\<close>

theorem tick_at_exact_interval_counterexample:
  "js_sub (Fin 10) (then_v (snd (setAnimationFrame counting_cb (Fin 10) 0 0 fresh_host 0)))
     = Fin 10 \<and>
   fired (snd (start counting_cb (Fin 10) 10
       (snd (setAnimationFrame counting_cb (Fin 10) 0 0 fresh_host 0))))
     = fired (snd (setAnimationFrame counting_cb (Fin 10) 0 0 fresh_host 0)) \<and>
   js_sub (Fin 9) (then_v (snd (setAnimationFrame counting_cb (Fin 10) 0 0 fresh_host 0)))
     = Fin 9 \<and>
   STARSHIP_TIMER (snd (setAnimationFrame counting_cb (Fin 10) 0 0 fresh_host 0)) = Some 1 \<and>
   STARSHIP_TIMER (snd (start counting_cb (Fin 10) 9
       (snd (setAnimationFrame counting_cb (Fin 10) 0 0 fresh_host 0)))) = Some 2"
  by (simp add: trace_eval start_fields fresh_host_def del: js_sub.simps js_rem.simps)

text \<open>
  Claim C2, as amended. When a tick fires, \<^verbatim>\<open>then\<close> becomes
  \<open>t - (delta % interval)\<close>, with the truncating remainder and the subtraction of the
  language; for a positive interval the remainder is \<open>delta mod interval\<close>. With
  interval 10, a loop created at time 0 and notified at 9, 21 and 31 fires exactly at
  21 and 31, and \<^verbatim>\<open>then\<close> is 20 after the first tick and 30 after the second (for
  any callback that does not stop the loop).
\<close>

theorem residual_carry:
  "(js_gt (js_sub (Fin t) (then_v w)) iv \<longrightarrow>
      then_v (snd (start cb iv t w)) =
        js_sub (Fin t) (js_rem (js_sub (Fin t) (then_v w)) iv)) \<and>
   (js_sub (Fin t) (then_v w) = Fin d \<and> 0 < i \<and> i < d \<longrightarrow>
      then_v (snd (start cb (Fin i) t w)) = js_sub (Fin t) (Fin (real_mod d i))) \<and>
   (single_loop h \<and> (\<forall>u. \<not> called_stop (cb u)) \<longrightarrow>
      fired (snd (setAnimationFrame cb (Fin 10) 0 0 h u0)) = [] \<and>
      fired (notifies cb (Fin 10) [9] (snd (setAnimationFrame cb (Fin 10) 0 0 h u0))) = [] \<and>
      fired (notifies cb (Fin 10) [9, 21] (snd (setAnimationFrame cb (Fin 10) 0 0 h u0)))
        = [21] \<and>
      then_v (notifies cb (Fin 10) [9, 21] (snd (setAnimationFrame cb (Fin 10) 0 0 h u0)))
        = Fin 20 \<and>
      fired (notifies cb (Fin 10) [9, 21, 31] (snd (setAnimationFrame cb (Fin 10) 0 0 h u0)))
        = [21, 31] \<and>
      then_v (notifies cb (Fin 10) [9, 21, 31] (snd (setAnimationFrame cb (Fin 10) 0 0 h u0)))
        = Fin 30)"
proof -
  have general: "then_v (snd (start cb iv t w)) =
      js_sub (Fin t) (js_rem (js_sub (Fin t) (then_v w)) iv)"
    if "js_gt (js_sub (Fin t) (then_v w)) iv"
    using that by (simp add: start_then)
  have positive: "then_v (snd (start cb (Fin i) t w)) = js_sub (Fin t) (Fin (real_mod d i))"
    if "js_sub (Fin t) (then_v w) = Fin d" "0 < i" "i < d"
  proof -
    have "js_rem (Fin d) (Fin i) = Fin (real_mod d i)"
      using that by (intro js_rem_pos) simp_all
    then show ?thesis
      using that by (simp add: start_then js_gt_Fin del: js_sub.simps js_rem.simps)
  qed
  have trace:
     "fired (snd (setAnimationFrame cb (Fin 10) 0 0 h u0)) = [] \<and>
      fired (notifies cb (Fin 10) [9] (snd (setAnimationFrame cb (Fin 10) 0 0 h u0))) = [] \<and>
      fired (notifies cb (Fin 10) [9, 21] (snd (setAnimationFrame cb (Fin 10) 0 0 h u0)))
        = [21] \<and>
      then_v (notifies cb (Fin 10) [9, 21] (snd (setAnimationFrame cb (Fin 10) 0 0 h u0)))
        = Fin 20 \<and>
      fired (notifies cb (Fin 10) [9, 21, 31] (snd (setAnimationFrame cb (Fin 10) 0 0 h u0)))
        = [21, 31] \<and>
      then_v (notifies cb (Fin 10) [9, 21, 31] (snd (setAnimationFrame cb (Fin 10) 0 0 h u0)))
        = Fin 30"
    if "single_loop h" "\<forall>u. \<not> called_stop (cb u)"
    using that by (simp add: trace_eval del: js_sub.simps js_rem.simps)
  show ?thesis
    using general positive trace by blast
qed

theorem residual_carry_witness:
  "js_gt (js_sub (Fin 21) (then_v (snd (setAnimationFrame counting_cb (Fin 10) 0 0 fresh_host 0))))
     (Fin 10) \<and>
   js_sub (Fin 21) (then_v (snd (setAnimationFrame counting_cb (Fin 10) 0 0 fresh_host 0)))
     = Fin 21 \<and>
   (0::real) < 10 \<and> (10::real) < 21 \<and> real_mod 21 10 = 1 \<and>
   then_v (snd (start counting_cb (Fin 10) 21
     (snd (setAnimationFrame counting_cb (Fin 10) 0 0 fresh_host 0)))) = Fin 20 \<and>
   single_loop fresh_host \<and>
   fired (notifies counting_cb (Fin 10) [9, 21, 31]
     (snd (setAnimationFrame counting_cb (Fin 10) 0 0 fresh_host 0))) = [21, 31] \<and>
   then_v (notifies counting_cb (Fin 10) [9, 21, 31]
     (snd (setAnimationFrame counting_cb (Fin 10) 0 0 fresh_host 0))) = Fin 30"
  using residual_carry
    [where t = 21 and w = "snd (setAnimationFrame counting_cb (Fin 10) 0 0 fresh_host 0)"
       and iv = "Fin 10" and cb = counting_cb and d = 21 and i = 10 and h = fresh_host
       and ?u0.0 = 0]
  by (simp add: trace_eval real_mod_def single_loop_def fresh_host_def counting_cb_def
      del: js_sub.simps js_rem.simps)

text \<open>
  Claim C2 as stated fails for a negative interval (a negative \<^verbatim>\<open>config.fps\<close>): with
  interval \<open>-10\<close> and \<^verbatim>\<open>then = 0\<close> the notification at 21 fires and sets
  \<^verbatim>\<open>then\<close> to 20, because \<^verbatim>\<open>21 % -10\<close> is 1, whereas \<open>21 - (21 mod -10)\<close> is 30.
\<close>

theorem negative_interval_counterexample:
  "then_v (snd (setAnimationFrame counting_cb (Fin (- 10)) 0 0 fresh_host 0)) = Fin 0 \<and>
   js_gt (js_sub (Fin 21)
       (then_v (snd (setAnimationFrame counting_cb (Fin (- 10)) 0 0 fresh_host 0))))
     (Fin (- 10)) \<and>
   then_v (snd (start counting_cb (Fin (- 10)) 21
       (snd (setAnimationFrame counting_cb (Fin (- 10)) 0 0 fresh_host 0)))) = Fin 20 \<and>
   21 - real_mod (21 - 0) (- 10) = (30::real)"
  by (simp add: trace_eval start_fields real_mod_def del: js_sub.simps js_rem.simps)

subsection \<open>Exceptions thrown by the callback\<close>

lemma notifies_append:
  "notifies cb iv (ts @ ts') w = notifies cb iv ts' (notifies cb iv ts w)"
  by (induction ts arbitrary: w) simp_all

lemma notifies_idle: "pending w = [] \<Longrightarrow> notifies cb iv ts w = w"
  by (induction ts) (simp_all add: notify_empty)

text \<open>The log holds the first failure only, as long as thrown values are truthy.\<close>

lemma start_log_invariant:
  assumes "\<forall>u e. thrown (cb u) = Some e \<longrightarrow> truthy e"
    and "console w = c0 @ take 1 (failures w)"
    and "truthy (error_v w) \<longleftrightarrow> failures w \<noteq> []"
  shows "console (snd (start cb iv t w)) = c0 @ take 1 (failures (snd (start cb iv t w))) \<and>
         (truthy (error_v (snd (start cb iv t w))) \<longleftrightarrow> failures (snd (start cb iv t w)) \<noteq> [])"
proof (cases "js_gt (js_sub (Fin t) (then_v w)) iv")
  case False
  then show ?thesis
    using assms by (simp add: start_console start_failures start_error)
next
  case True
  show ?thesis
  proof (cases "thrown (cb (user w))")
    case None
    then show ?thesis
      using True assms by (simp add: start_console start_failures start_error)
  next
    case (Some e)
    then have "truthy e"
      using assms(1) by blast
    then show ?thesis
      using True Some assms(2,3)
      by (cases "failures w") (simp_all add: start_console start_failures start_error)
  qed
qed

lemma notify_log_invariant:
  assumes "\<forall>u e. thrown (cb u) = Some e \<longrightarrow> truthy e"
    and "console w = c0 @ take 1 (failures w)"
    and "truthy (error_v w) \<longleftrightarrow> failures w \<noteq> []"
  shows "console (notify cb iv t w) = c0 @ take 1 (failures (notify cb iv t w)) \<and>
         (truthy (error_v (notify cb iv t w)) \<longleftrightarrow> failures (notify cb iv t w) \<noteq> [])"
proof (cases "pending w")
  case Nil
  then show ?thesis
    using assms by (simp add: notify_empty)
next
  case (Cons i rest)
  then show ?thesis
    using start_log_invariant [of cb "w\<lparr>pending := rest\<rparr>" c0 iv t] assms
    by (simp add: notify_Cons)
qed

lemma notifies_log_invariant:
  assumes "\<forall>u e. thrown (cb u) = Some e \<longrightarrow> truthy e"
  shows "console w = c0 @ take 1 (failures w) \<Longrightarrow>
         (truthy (error_v w) \<longleftrightarrow> failures w \<noteq> []) \<Longrightarrow>
         console (notifies cb iv ts w) = c0 @ take 1 (failures (notifies cb iv ts w)) \<and>
         (truthy (error_v (notifies cb iv ts w)) \<longleftrightarrow> failures (notifies cb iv ts w) \<noteq> [])"
proof (induction ts arbitrary: w)
  case Nil
  then show ?case by simp
next
  case (Cons t ts)
  have step: "console (notify cb iv t w) = c0 @ take 1 (failures (notify cb iv t w)) \<and>
      (truthy (error_v (notify cb iv t w)) \<longleftrightarrow> failures (notify cb iv t w) \<noteq> [])"
    using notify_log_invariant [OF assms Cons.prems] .
  show ?case
    using Cons.IH [of "notify cb iv t w"] step by simp
qed

lemma setAnimationFrame_log_invariant:
  assumes "\<forall>u e. thrown (cb u) = Some e \<longrightarrow> truthy e"
  shows "console (snd (setAnimationFrame cb iv t0 t1 h u)) =
           console h @ take 1 (failures (snd (setAnimationFrame cb iv t0 t1 h u))) \<and>
         (truthy (error_v (snd (setAnimationFrame cb iv t0 t1 h u))) \<longleftrightarrow>
            failures (snd (setAnimationFrame cb iv t0 t1 h u)) \<noteq> [])"
  unfolding setAnimationFrame_def Let_def
  by (rule start_log_invariant [OF assms]) (simp_all add: stop_fields)

text \<open>A callback that never stops the loop leaves a request outstanding.\<close>

lemma notify_keeps_pending:
  "\<forall>u. \<not> called_stop (cb u) \<Longrightarrow> pending w \<noteq> [] \<Longrightarrow> pending (notify cb iv t w) \<noteq> []"
  by (cases "pending w") (simp_all add: notify_pending)

lemma notifies_keeps_pending:
  "\<forall>u. \<not> called_stop (cb u) \<Longrightarrow> pending w \<noteq> [] \<Longrightarrow> pending (notifies cb iv ts w) \<noteq> []"
  by (induction ts arbitrary: w) (simp_all add: notify_keeps_pending)

lemma setAnimationFrame_keeps_pending:
  "\<forall>u. \<not> called_stop (cb u) \<Longrightarrow> pending (snd (setAnimationFrame cb iv t0 t1 h u)) \<noteq> []"
  by (simp add: setAnimationFrame_def Let_def start_pending)

lemma truthy_failures_logged_once:
  assumes "\<forall>u e. thrown (cb u) = Some e \<longrightarrow> truthy e"
  shows "console (notifies cb iv ts (snd (setAnimationFrame cb iv t0 t1 h u0))) =
           console h @ take 1 (failures (notifies cb iv ts (snd (setAnimationFrame cb iv t0 t1 h u0))))"
  using notifies_log_invariant [OF assms] setAnimationFrame_log_invariant [OF assms]
  by blast

text \<open>
  Claim C3. The claim holds for callbacks that throw truthy values, as the lemmas above
  show; the code misses it for a falsy thrown value. The catch clause tests
  \<^verbatim>\<open>!error\<close>, which stays true after \<^verbatim>\<open>error = err\<close> when \<^verbatim>\<open>err\<close> is falsy:
  with a callback that throws \<^verbatim>\<open>null\<close> on every call, interval 10, a loop created at
  time 0 and notifications at 11 and 22, both failures are caught and both are logged.
\<close>

theorem falsy_failure_logged_twice:
  "failures (notifies null_throwing_cb (Fin 10) [11, 22]
      (snd (setAnimationFrame null_throwing_cb (Fin 10) 0 0 fresh_host 0)))
     = [JNull, JNull] \<and>
   console (notifies null_throwing_cb (Fin 10) [11, 22]
      (snd (setAnimationFrame null_throwing_cb (Fin 10) 0 0 fresh_host 0)))
     = [JNull, JNull] \<and>
   console (notifies error_throwing_cb (Fin 10) [11, 22]
      (snd (setAnimationFrame error_throwing_cb (Fin 10) 0 0 fresh_host 0)))
     = [JObj ''Error'']"
  by (simp add: trace_eval setAnimationFrame_def start_fields stop_fields stop_pending
      fresh_host_def null_throwing_cb_def error_throwing_cb_def
      del: js_sub.simps js_rem.simps)

subsection \<open>Termination of the loop\<close>

lemma run_cb_keeps_stop_initialised:
  "stop_initialised (user_after (run_cb update destroy env)) = stop_initialised env"
  by (simp add: run_cb_def Let_def split: prod.split sum.split option.split)

lemma run_cb_quit:
  assumes "update (state env) = (s1, Inr v)" "truthy v" "destroy s1 = (s2, None)"
    and "stop_initialised env"
  shows "run_cb update destroy env =
           CbResult (env\<lparr>state := s2, calls := calls env @ [CallUpdate, CallDestroy]\<rparr>) True None"
  using assms by (simp add: run_cb_def)

lemma notify_single_loop: "single_loop w \<Longrightarrow> single_loop (notify cb iv t w)"
  by (auto simp: single_loop_def notify_pending notify_timer notify_next_handle
      split: list.splits)

lemma notifies_single_loop: "single_loop w \<Longrightarrow> single_loop (notifies cb iv ts w)"
  by (induction ts arbitrary: w) (simp_all add: notify_single_loop)

lemma notify_stop_initialised:
  "stop_initialised (user (notify (run_cb update destroy) iv t w)) = stop_initialised (user w)"
  by (simp add: notify_user run_cb_keeps_stop_initialised)

lemma notifies_stop_initialised:
  "stop_initialised (user (notifies (run_cb update destroy) iv ts w)) =
     stop_initialised (user w)"
  by (induction ts arbitrary: w) (simp_all add: notify_stop_initialised)

lemma setAnimationFrame_single_loop:
  assumes "single_loop h"
  shows "single_loop (snd (setAnimationFrame cb iv t0 t1 h u))"
  by (simp add: single_loop_def setAnimationFrame_fields setAnimationFrame_pending [OF assms])

lemma run_Inr:
  assumes "run config init destroy update t0 t1 h = Inr w0"
  shows "\<exists>s w. init = Inr s \<and>
           w = snd (setAnimationFrame (run_cb update destroy) (frame_interval config) t0 t1 h
                 \<lparr>state = s, stop_initialised = False, calls = []\<rparr>) \<and>
           w0 = w\<lparr>user := (user w)\<lparr>stop_initialised := True\<rparr>\<rparr>"
proof (cases init)
  case (Inl e)
  then show ?thesis using assms by (simp add: run_def)
next
  case (Inr s)
  let ?r = "setAnimationFrame (run_cb update destroy) (frame_interval config) t0 t1 h
              \<lparr>state = s, stop_initialised = False, calls = []\<rparr>"
  obtain c w where r: "?r = (c, w)"
    by (cases ?r)
  have "fst ?r = Normal"
    by (simp add: setAnimationFrame_fields)
  then have "c = Normal"
    using r by simp
  then show ?thesis
    using assms Inr r by (simp add: run_def)
qed

lemma run_invariants:
  assumes "single_loop h" "run config init destroy update t0 t1 h = Inr w0"
  shows "single_loop w0 \<and> stop_initialised (user w0)"
proof -
  obtain s w where w: "w = snd (setAnimationFrame (run_cb update destroy)
        (frame_interval config) t0 t1 h \<lparr>state = s, stop_initialised = False, calls = []\<rparr>)"
    and w0: "w0 = w\<lparr>user := (user w)\<lparr>stop_initialised := True\<rparr>\<rparr>"
    using run_Inr [OF assms(2)] by blast
  have "single_loop w"
    unfolding w by (rule setAnimationFrame_single_loop [OF assms(1)])
  then show ?thesis
    using w0 by (simp add: single_loop_def split: list.splits)
qed

lemma single_loop_stop_idle:
  "single_loop w \<Longrightarrow> notifies cb iv ts (stop w) = stop w"
  by (simp add: notifies_idle single_loop_stop_pending)

lemma frame_interval_example: "frame_interval example_config = Fin 10"
  by (simp add: frame_interval_def example_config_def js_div_def to_num_int)

lemma run_example:
  "run example_config (Inr s) destroy update 0 0 fresh_host =
     Inr \<lparr>pending = [1], next_handle = 2, STARSHIP_TIMER = Some 1, console = [],
          then_v = Fin 0, now_v = Some (Fin 0), delta_v = Some (Fin 0),
          error_v = JUndefined,
          user = \<lparr>state = s, stop_initialised = True, calls = []\<rparr>,
          fired = [], failures = []\<rparr>"
  by (simp add: run_def frame_interval_example setAnimationFrame_def start_unfold
      fresh_host_def js_gt_Fin signed_zero_def)

text \<open>
  With a \<^verbatim>\<open>destroy\<close> that returns, the loop ends as the claim says: from any state
  reached after \<^const>\<open>run\<close>, a tick on which \<^verbatim>\<open>update\<close> returns a truthy value
  calls \<^verbatim>\<open>update\<close> and \<^verbatim>\<open>destroy\<close> once each and leaves no request outstanding,
  and after that, or after \<^const>\<open>stop\<close>, no notification changes anything.
\<close>

lemma returning_destroy_ends_loop:
  assumes "single_loop h"
    and "run config init destroy update t0 t1 h = Inr w0"
    and "w = notifies (run_cb update destroy) (frame_interval config) ts w0"
  shows "(pending w \<noteq> [] \<and> js_gt (js_sub (Fin t) (then_v w)) (frame_interval config) \<and>
          update (state (user w)) = (s1, Inr v) \<and> truthy v \<and> destroy s1 = (s2, None) \<longrightarrow>
            calls (user (notify (run_cb update destroy) (frame_interval config) t w))
              = calls (user w) @ [CallUpdate, CallDestroy] \<and>
            pending (notify (run_cb update destroy) (frame_interval config) t w) = [] \<and>
            (\<forall>ts'. notifies (run_cb update destroy) (frame_interval config) ts'
                     (notify (run_cb update destroy) (frame_interval config) t w)
                   = notify (run_cb update destroy) (frame_interval config) t w)) \<and>
         (\<forall>ts'. notifies (run_cb update destroy) (frame_interval config) ts' (stop w) = stop w)"
proof -
  let ?cb = "run_cb update destroy"
  let ?iv = "frame_interval config"
  have inv0: "single_loop w0 \<and> stop_initialised (user w0)"
    using run_invariants [OF assms(1,2)] .
  have loop: "single_loop w"
    using inv0 assms(3) by (simp add: notifies_single_loop)
  have bound: "stop_initialised (user w)"
    using inv0 assms(3) by (simp add: notifies_stop_initialised)
  have quit: "calls (user (notify ?cb ?iv t w)) = calls (user w) @ [CallUpdate, CallDestroy] \<and>
      pending (notify ?cb ?iv t w) = [] \<and>
      (\<forall>ts'. notifies ?cb ?iv ts' (notify ?cb ?iv t w) = notify ?cb ?iv t w)"
    if fire: "pending w \<noteq> []" "js_gt (js_sub (Fin t) (then_v w)) ?iv"
      and upd: "update (state (user w)) = (s1, Inr v)" "truthy v"
      and des: "destroy s1 = (s2, None)"
  proof -
    have cb: "?cb (user w) =
        CbResult ((user w)\<lparr>state := s2, calls := calls (user w) @ [CallUpdate, CallDestroy]\<rparr>)
          True None"
      using upd des bound by (rule run_cb_quit)
    obtain i where i: "pending w = [i]"
      using loop fire(1) by (auto simp: single_loop_def split: list.splits)
    have calls: "calls (user (notify ?cb ?iv t w)) = calls (user w) @ [CallUpdate, CallDestroy]"
      using fire cb by (simp add: notify_user)
    have idle: "pending (notify ?cb ?iv t w) = []"
      using fire(2) cb i by (simp add: notify_pending)
    show ?thesis
      using calls idle by (simp add: notifies_idle)
  qed
  have stopped: "\<forall>ts'. notifies ?cb ?iv ts' (stop w) = stop w"
    using loop by (simp add: single_loop_stop_idle)
  show ?thesis
    using quit stopped by blast
qed

text \<open>
  Claim C5. The code misses the claim when \<^verbatim>\<open>destroy\<close> throws: \<^verbatim>\<open>stop()\<close> is then
  never reached, the scheduler catches the exception, and the request it had already
  re-armed stays outstanding. With 100 frames per second (interval 10), an
  \<^verbatim>\<open>update\<close> that always returns true and a \<^verbatim>\<open>destroy\<close> that always throws,
  the notifications at 11 and 22 call \<^verbatim>\<open>update\<close> and \<^verbatim>\<open>destroy\<close> twice each, and
  a request is still outstanding; with a \<^verbatim>\<open>destroy\<close> that returns, the same trace
  calls each once and leaves none.
\<close>

theorem throwing_destroy_called_again:
  "frame_interval example_config = Fin 10 \<and>
   calls (user (notifies (run_cb quitting_update throwing_destroy) (Fin 10) [11, 22]
     (projr (run example_config (Inr 0) throwing_destroy quitting_update 0 0 fresh_host))))
     = [CallUpdate, CallDestroy, CallUpdate, CallDestroy] \<and>
   pending (notifies (run_cb quitting_update throwing_destroy) (Fin 10) [11, 22]
     (projr (run example_config (Inr 0) throwing_destroy quitting_update 0 0 fresh_host)))
     = [3] \<and>
   calls (user (notifies (run_cb quitting_update returning_destroy) (Fin 10) [11, 22]
     (projr (run example_config (Inr 0) returning_destroy quitting_update 0 0 fresh_host))))
     = [CallUpdate, CallDestroy] \<and>
   pending (notifies (run_cb quitting_update returning_destroy) (Fin 10) [11, 22]
     (projr (run example_config (Inr 0) returning_destroy quitting_update 0 0 fresh_host)))
     = []"
  by (simp add: frame_interval_example run_example notify_fields js_sub_int js_rem_Fin
      js_gt_Fin js_trunc_def signed_zero_def run_cb_def quitting_update_def
      throwing_destroy_def returning_destroy_def del: js_sub.simps js_rem.simps)

section \<open>The arithmetic at work\<close>

text \<open>
  The doubles nearest to 0.3 and 10.3 differ by more than 10, but their computed
  difference is exactly 10, so with interval 10 no tick fires.
\<close>

lemma rounded_delta_skips:
  "10 < 2899192260119757 / 2 ^ 48 - 5404319552844595 / (2 ^ 54 :: real) \<and>
   js_sub (Fin (2899192260119757 / 2 ^ 48)) (Fin (5404319552844595 / 2 ^ 54)) = Fin 10 \<and>
   fired (snd (start counting_cb (Fin 10) (2899192260119757 / 2 ^ 48)
       (snd (setAnimationFrame counting_cb (Fin 10)
          (5404319552844595 / 2 ^ 54) (5404319552844595 / 2 ^ 54) fresh_host 0)))) = []"
proof -
  let ?w = "snd (setAnimationFrame counting_cb (Fin 10)
          (5404319552844595 / 2 ^ 54) (5404319552844595 / 2 ^ 54) fresh_host 0)"
  have d: "js_sub (Fin (2899192260119757 / 2 ^ 48)) (Fin (5404319552844595 / 2 ^ 54)) = Fin 10"
    by (simp add: js_sub_Fin to_num_def round_double_scaled [where n = 49] round_even_def
        del: js_sub.simps)
  have w: "then_v ?w = Fin (5404319552844595 / 2 ^ 54)" "fired ?w = []"
    by (simp_all add: setAnimationFrame_fields js_sub_self js_gt_Fin del: js_sub.simps)
  have "\<not> js_gt (js_sub (Fin (2899192260119757 / 2 ^ 48)) (then_v ?w)) (Fin 10)"
    unfolding w d by (simp add: js_gt_Fin)
  then have "fired (snd (start counting_cb (Fin 10) (2899192260119757 / 2 ^ 48) ?w)) = []"
    using w(2) by (simp only: start_fired if_False)
  then show ?thesis
    using d by simp
qed

text \<open>
  With \<^verbatim>\<open>then\<close> the double nearest to 0.1, the clock at the double nearest to 25.3
  and interval 10, the tick stores the double nearest to 20.1, which is not the exact
  value of \<open>t - (delta mod 10)\<close>.
\<close>

lemma rounded_residual_carry:
  "then_v (snd (start counting_cb (Fin 10) (7121316910779597 / 2 ^ 48)
       (snd (setAnimationFrame counting_cb (Fin 10)
          (3602879701896397 / 2 ^ 55) (3602879701896397 / 2 ^ 55) fresh_host 0))))
     = Fin (2828823515942093 / 2 ^ 47) \<and>
   7121316910779597 / 2 ^ 48
     - real_mod (7121316910779597 / 2 ^ 48 - 3602879701896397 / 2 ^ 55) 10
     \<noteq> (2828823515942093 / 2 ^ 47 :: real)"
proof -
  let ?w = "snd (setAnimationFrame counting_cb (Fin 10)
          (3602879701896397 / 2 ^ 55) (3602879701896397 / 2 ^ 55) fresh_host 0)"
  have d: "js_sub (Fin (7121316910779597 / 2 ^ 48)) (Fin (3602879701896397 / 2 ^ 55))
      = Fin (7093169413108531 / 2 ^ 48)"
    by (simp add: js_sub_Fin to_num_def round_double_scaled [where n = 48] round_even_def
        del: js_sub.simps)
  have r: "js_rem (Fin (7093169413108531 / 2 ^ 48)) (Fin 10) = Fin (1463669878895411 / 2 ^ 48)"
    by (simp add: js_rem_Fin js_trunc_def del: js_rem.simps)
  have s: "js_sub (Fin (7121316910779597 / 2 ^ 48)) (Fin (1463669878895411 / 2 ^ 48))
      = Fin (2828823515942093 / 2 ^ 47)"
    by (simp add: js_sub_Fin to_num_def round_double_scaled [where n = 48] round_even_def
        del: js_sub.simps)
  have w: "then_v ?w = Fin (3602879701896397 / 2 ^ 55)"
    by (simp add: setAnimationFrame_fields js_sub_self js_gt_Fin del: js_sub.simps)
  have "js_gt (js_sub (Fin (7121316910779597 / 2 ^ 48)) (then_v ?w)) (Fin 10)"
    unfolding w d by (simp add: js_gt_Fin)
  then have "then_v (snd (start counting_cb (Fin 10) (7121316910779597 / 2 ^ 48) ?w)) =
      js_sub (Fin (7121316910779597 / 2 ^ 48))
        (js_rem (js_sub (Fin (7121316910779597 / 2 ^ 48)) (then_v ?w)) (Fin 10))"
    by (simp only: start_then if_True)
  also have "\<dots> = Fin (2828823515942093 / 2 ^ 47)"
    unfolding w d r s ..
  finally have stored: "then_v (snd (start counting_cb (Fin 10) (7121316910779597 / 2 ^ 48) ?w))
      = Fin (2828823515942093 / 2 ^ 47)" .
  have "7121316910779597 / 2 ^ 48
     - real_mod (7121316910779597 / 2 ^ 48 - 3602879701896397 / 2 ^ 55) 10
     \<noteq> (2828823515942093 / 2 ^ 47 :: real)"
    by (simp add: real_mod_def)
  then show ?thesis
    using stored by blast
qed

text \<open>
  The default interval is the double nearest to \<open>1000 / 60\<close>; a rate of zero gives an
  infinite interval, with which no notification fires; with interval zero the first tick
  sets \<^verbatim>\<open>then\<close> to \<^verbatim>\<open>NaN\<close>, and no later notification fires.
\<close>

lemma frame_interval_default:
  "fps config = None \<Longrightarrow> frame_interval config = Fin (4691249611844267 / 2 ^ 48)"
  by (simp add: frame_interval_def js_div_def to_num_def
      round_double_scaled [where n = 48] round_even_def)

lemma frame_interval_zero_rate:
  "fps config = Some (Fin 0) \<Longrightarrow> frame_interval config = PInf"
  "fps config = Some NegZero \<Longrightarrow> frame_interval config = NInf"
  by (simp_all add: frame_interval_def js_div_def signed_inf_def)

lemma infinite_interval_never_fires: "fired (snd (start cb PInf t w)) = fired w"
  by (cases "js_sub (Fin t) (then_v w)") (simp_all add: start_fired js_gt_def)

lemma js_sub_NaN: "js_sub a NaN = NaN"
  by (cases a) simp_all

lemma js_lt_NaN: "\<not> js_lt a NaN"
  by (cases a) simp_all

lemma zero_interval_stalls:
  "then_v (snd (start counting_cb (Fin 0) 5
      (snd (setAnimationFrame counting_cb (Fin 0) 0 0 fresh_host 0)))) = NaN \<and>
   fired (notifies counting_cb (Fin 0) [5, 9, 20]
      (snd (setAnimationFrame counting_cb (Fin 0) 0 0 fresh_host 0))) = [5]"
  by (simp add: trace_eval start_fields single_loop_def fresh_host_def counting_cb_def
      js_gt_def js_sub_NaN js_lt_NaN del: js_sub.simps js_rem.simps)

text \<open>
  With the stored timestamp the double nearest to 0.002 and the clock at the double
  nearest to 16.668, the exact difference is below 16.666, but the computed one is the
  constant itself, and the query is false.
\<close>

lemma rounded_press_window:
  "2345812455906607 / 2 ^ 47 - 1152921504606847 / 2 ^ 59 < (16.666 :: real) \<and>
   \<not> isButtonPressed A (2345812455906607 / 2 ^ 47) (BUTTONS(A := 1152921504606847 / 2 ^ 59))"
proof -
  have d: "js_sub (Fin (2345812455906607 / 2 ^ 47)) (Fin (1152921504606847 / 2 ^ 59))
      = Fin (4691061961859793 / 2 ^ 48)"
    by (simp add: js_sub_Fin to_num_def round_double_scaled [where n = 48] round_even_def
        del: js_sub.simps)
  have "\<not> js_lt (js_sub (Fin (2345812455906607 / 2 ^ 47)) (Fin (1152921504606847 / 2 ^ 59)))
      (js_literal 16.666)"
    unfolding d js_literal_16_666 by simp
  then have "\<not> isButtonPressed A (2345812455906607 / 2 ^ 47)
      (BUTTONS(A := 1152921504606847 / 2 ^ 59))"
    unfolding isButtonPressed_def Let_def fun_upd_same .
  then show ?thesis
    by simp
qed


end
